theory Spec2Isabelle
  imports Complex_Main "HOL-Library.Product_Lexorder" "HOL-Library.Log_Nat"
begin

section \<open>JavaScript numbers\<close>

text \<open>
  The numbers of the code are IEEE 754 doubles. A finite double is modelled by the real
  number it denotes, and an arithmetic operation of the code by the exact operation
  followed by \<open>to_double\<close>, the rounding to the nearest double, a tie going to the double
  with the even significand (53 bits of significand, gradual underflow below
  \<open>2\<^sup>-\<^sup>1\<^sup>0\<^sup>2\<^sup>2\<close>). Infinity and NaN are not modelled: the model covers magnitudes below
  \<open>2\<^sup>1\<^sup>0\<^sup>2\<^sup>4\<close>. A request body cannot carry a NaN, and the submit route rejects an infinite
  quality and finds no card for an infinite card id.
\<close>

text \<open>The binary exponent \<open>\<lfloor>log\<^sub>2 a\<rfloor>\<close> of a positive \<open>a\<close>, from bit lengths.\<close>

definition expo :: "real \<Rightarrow> int" where
  "expo a = (if 1 \<le> a then bitlen \<lfloor>a\<rfloor> - 1
             else (let k = bitlen \<lfloor>1 / a\<rfloor> - 1
                   in if 1 / a = 2 powi k then - k else - k - 1))"

text \<open>
  The spacing of the doubles around \<open>x\<close>: \<open>2\<^sup>e\<^sup>-\<^sup>5\<^sup>2\<close> with \<open>e\<close> the binary exponent of \<open>x\<close>,
  and \<open>-1022\<close> for the subnormal numbers.
\<close>

definition quantum :: "real \<Rightarrow> real" where
  "quantum x = 2 powi (max (expo \<bar>x\<bar>) (- 1022) - 52)"

text \<open>The nearest integer, a tie going to the even one.\<close>

definition round_half_even :: "real \<Rightarrow> int" where
  "round_half_even y =
     (let f = \<lfloor>y\<rfloor>; r = y - of_int f
      in if r < 1 / 2 then f else if 1 / 2 < r then f + 1 else if even f then f else f + 1)"

definition to_double :: "real \<Rightarrow> real" where
  "to_double x =
     (if x = 0 then 0 else of_int (round_half_even (x / quantum x)) * quantum x)"

text \<open>A real number is a double when rounding leaves it as it is.\<close>

definition is_double :: "real \<Rightarrow> bool" where
  "is_double x = (to_double x = x)"

text \<open>The operators \<^verbatim>\<open>+\<close>, \<^verbatim>\<open>-\<close> and \<^verbatim>\<open>*\<close> of the code.\<close>

definition num_add :: "real \<Rightarrow> real \<Rightarrow> real" where
  "num_add x y = to_double (x + y)"

definition num_sub :: "real \<Rightarrow> real \<Rightarrow> real" where
  "num_sub x y = to_double (x - y)"

definition num_mul :: "real \<Rightarrow> real \<Rightarrow> real" where
  "num_mul x y = to_double (x * y)"

text \<open>A decimal literal of the source denotes the double nearest to it.\<close>

definition lit :: "real \<Rightarrow> real" where
  "lit x = to_double x"

section \<open>The SM-2 scheduler\<close>

text \<open>
  The scheduler is the function \<^verbatim>\<open>calculateSM2\<close> of the review routes. The ease factor
  and the submitted quality are numbers of the code. The interval and the repetition count
  are integers: the columns \<^verbatim>\<open>interval\<close> and \<^verbatim>\<open>repetitions\<close> of the table \<^verbatim>\<open>cards\<close> are
  declared INTEGER, the function only ever produces integers for them, and an integer of
  magnitude up to \<open>2\<^sup>5\<^sup>3\<close> is a double.
\<close>

text \<open>
  \<^verbatim>\<open>Math.round(x)\<close>: the integer nearest to \<open>x\<close>, a tie going to the larger one
  (\<^verbatim>\<open>Math.round(2.5) = 3\<close>, \<^verbatim>\<open>Math.round(-2.5) = -2\<close>); it is exact.
\<close>

definition Math_round :: "real \<Rightarrow> int" where
  "Math_round x = \<lfloor>x + 1 / 2\<rfloor>"

text \<open>The value returned by \<^verbatim>\<open>calculateSM2\<close>: \<^verbatim>\<open>{ easeFactor, interval, repetitions }\<close>.\<close>

record sm2 =
  easeFactor :: real
  interval :: int
  repetitions :: int

text \<open>
  The first statement of \<^verbatim>\<open>calculateSM2\<close>:
  \<^verbatim>\<open>quality = Math.max(0, Math.min(5, Math.round(quality)))\<close>.
\<close>

definition clamp_quality :: "real \<Rightarrow> int" where
  "clamp_quality quality = max 0 (min 5 (Math_round quality))"

text \<open>
  \<^verbatim>\<open>
  if (quality < 3) { newRepetitions = 0; newInterval = 1; }
  else {
    if (newRepetitions === 0) newInterval = 1;
    else if (newRepetitions === 1) newInterval = 6;
    else newInterval = Math.round(interval * easeFactor);
    newRepetitions += 1;
  }
  newEaseFactor = easeFactor + (0.1 - (5 - quality) * (0.08 + (5 - quality) * 0.02));
  if (newEaseFactor < 1.3) newEaseFactor = 1.3;
  \<close>
\<close>

definition calculateSM2 :: "real \<Rightarrow> real \<Rightarrow> int \<Rightarrow> int \<Rightarrow> sm2" where
  "calculateSM2 quality0 ef ivl reps =
     (let quality = clamp_quality quality0;
          newInterval =
            (if quality < 3 then 1
             else if reps = 0 then 1
             else if reps = 1 then 6
             else Math_round (num_mul (of_int ivl) ef));
          newRepetitions = (if quality < 3 then 0 else reps + 1);
          newEaseFactor =
            num_add ef
              (num_sub (lit 0.1)
                 (num_mul (num_sub 5 (of_int quality))
                    (num_add (lit 0.08) (num_mul (num_sub 5 (of_int quality)) (lit 0.02)))));
          newEaseFactor' = (if newEaseFactor < lit 1.3 then lit 1.3 else newEaseFactor)
      in \<lparr>easeFactor = newEaseFactor', interval = newInterval,
          repetitions = newRepetitions\<rparr>)"

text \<open>The spec's \<open>advance(quality, state)\<close>: the scheduler applied to a memory state.\<close>

definition advance :: "real \<Rightarrow> sm2 \<Rightarrow> sm2" where
  "advance quality s = calculateSM2 quality (easeFactor s) (interval s) (repetitions s)"

text \<open>A sequence of reviews: each call starts from the state the previous one returned.\<close>

fun advance_all :: "sm2 \<Rightarrow> real list \<Rightarrow> sm2" where
  "advance_all s [] = s"
| "advance_all s (q # qs) = advance_all (advance q s) qs"

text \<open>
  The increment of the ease factor at a clamped quality, as the code computes it, and the
  exact value of the same formula.
\<close>

definition ef_delta :: "int \<Rightarrow> real" where
  "ef_delta quality =
     num_sub (lit 0.1)
       (num_mul (num_sub 5 (of_int quality))
          (num_add (lit 0.08) (num_mul (num_sub 5 (of_int quality)) (lit 0.02))))"

definition ef_delta_exact :: "int \<Rightarrow> real" where
  "ef_delta_exact q = 0.1 - (5 - of_int q) * (0.08 + (5 - of_int q) * 0.02)"

section \<open>The card store\<close>

text \<open>
  Time is counted in UTC, as SQLite's \<^verbatim>\<open>date('now')\<close> and JavaScript's
  \<^verbatim>\<open>toISOString()\<close> do: an instant is a number of milliseconds since the epoch
  (the value of a JavaScript \<^verbatim>\<open>Date\<close>), a calendar date is a number of days since the
  epoch. The queries are read at instants within the years 0000 to 9999, where SQLite's
  \<^verbatim>\<open>date()\<close> parses both formats below and the text order of two dates is their
  calendar order. A due date after the year 9999, which \<^verbatim>\<open>toISOString()\<close> writes with
  an expanded year that \<^verbatim>\<open>date()\<close> does not parse, puts the card in no due set and in
  no histogram, in the code as in the model, where its date lies after every date asked
  for.

  The column \<^verbatim>\<open>due_date\<close> holds text, and the code writes it in two formats:
  \<^item> \<open>SqlDatetime s\<close> is the text \<^verbatim>\<open>YYYY-MM-DD HH:MM:SS\<close> of the second \<open>s\<close> since the
    epoch, as \<^verbatim>\<open>datetime('now')\<close> writes it when a card is created
    (\<^verbatim>\<open>INSERT INTO cards (deck_id, front, back, due_date) VALUES (?, ?, ?, datetime('now'))\<close>);
  \<^item> \<open>IsoString ms\<close> is the text of the millisecond \<open>ms\<close> since the epoch as
    \<^verbatim>\<open>dueDate.toISOString()\<close> writes it when a review is submitted
    (\<^verbatim>\<open>YYYY-MM-DDTHH:MM:SS.sssZ\<close> for the years 0000 to 9999).
\<close>

datatype due_text = SqlDatetime int | IsoString int

text \<open>The instant a stored due date denotes, in milliseconds since the epoch.\<close>

fun instant_ms :: "due_text \<Rightarrow> int" where
  "instant_ms (SqlDatetime s) = s * 1000"
| "instant_ms (IsoString ms) = ms"

text \<open>SQLite's \<^verbatim>\<open>date(c.due_date)\<close>: the calendar date of the stored text.\<close>

fun date_of :: "due_text \<Rightarrow> int" where
  "date_of (SqlDatetime s) = s div 86400"
| "date_of (IsoString ms) = ms div 86400000"

text \<open>
  \<^verbatim>\<open>ORDER BY c.due_date\<close> compares the stored texts byte by byte. Both formats start
  with the ten characters of the date; the eleventh is a space in the first format and
  the letter T in the second, and a space is smaller than a T; the rest is the time of
  day in digits of fixed width. The key below orders exactly as the texts do.
\<close>

fun text_key :: "due_text \<Rightarrow> int \<times> nat \<times> int" where
  "text_key (SqlDatetime s) = (s div 86400, 0, s mod 86400)"
| "text_key (IsoString ms) = (ms div 86400000, 1, ms mod 86400000)"

text \<open>
  A row of the table \<^verbatim>\<open>cards\<close>: the memory state (the columns \<^verbatim>\<open>ease_factor\<close>,
  \<^verbatim>\<open>interval\<close> and \<^verbatim>\<open>repetitions\<close>, the fields of \<open>sm2\<close>) and the columns \<^verbatim>\<open>id\<close>,
  \<^verbatim>\<open>deck_id\<close>, \<^verbatim>\<open>front\<close>, \<^verbatim>\<open>back\<close> and \<^verbatim>\<open>due_date\<close>. The columns \<^verbatim>\<open>created_at\<close> and
  \<^verbatim>\<open>updated_at\<close> play no part in the review routes and are left out.
\<close>

record card = sm2 +
  card_id :: int
  deck_id :: int
  card_front :: string
  card_back :: string
  due_date :: due_text

text \<open>A row of the table \<^verbatim>\<open>review_history\<close>, as the submit route inserts it.\<close>

record review =
  rh_card_id :: int
  rh_quality :: real
  rh_ease_factor :: real
  rh_interval :: int

text \<open>
  The database: the rows of \<^verbatim>\<open>cards\<close> in scan order, the table \<^verbatim>\<open>decks\<close> as a map from
  the deck's \<^verbatim>\<open>id\<close> (its primary key) to its \<^verbatim>\<open>user_id\<close>, and the rows of
  \<^verbatim>\<open>review_history\<close> in insertion order.
\<close>

record db =
  cards :: "card list"
  decks :: "int \<rightharpoonup> int"
  review_history :: "review list"

text \<open>\<^verbatim>\<open>date('now')\<close> at the instant \<open>now\<close>.\<close>

definition date_now :: "int \<Rightarrow> int" where
  "date_now now = now div 86400000"

text \<open>\<^verbatim>\<open>date(c.due_date) <= date('now')\<close>\<close>

definition is_due :: "int \<Rightarrow> card \<Rightarrow> bool" where
  "is_due now c = (date_of (due_date c) \<le> date_now now)"

text \<open>
  The rows both queries start from:
  \<^verbatim>\<open>FROM cards c JOIN decks d ON c.deck_id = d.id WHERE d.user_id = ?\<close>, and
  \<^verbatim>\<open>AND c.deck_id = ?\<close> when the request has a \<^verbatim>\<open>deckId\<close>.
\<close>

definition in_scope :: "db \<Rightarrow> int \<Rightarrow> int option \<Rightarrow> card \<Rightarrow> bool" where
  "in_scope d user deckId c =
     (decks d (deck_id c) = Some user \<and>
      (case deckId of None \<Rightarrow> True | Some k \<Rightarrow> deck_id c = k))"

section \<open>The due-set selector and the statistics\<close>

text \<open>
  The route \<^verbatim>\<open>GET /due\<close>:
  \<^verbatim>\<open>
  SELECT c.*, d.name as deck_name FROM cards c JOIN decks d ON c.deck_id = d.id
  WHERE d.user_id = ? AND date(c.due_date) <= date('now') [AND c.deck_id = ?]
  ORDER BY c.due_date ASC LIMIT 50
  \<close>
  Rows with equal keys stay in scan order (the sort is stable).
\<close>

definition selectDue :: "db \<Rightarrow> int \<Rightarrow> int option \<Rightarrow> int \<Rightarrow> card list" where
  "selectDue d user deckId now =
     take 50 (sort_key (\<lambda>c. text_key (due_date c))
       (filter (\<lambda>c. in_scope d user deckId c \<and> is_due now c) (cards d)))"

text \<open>The first row of the route \<^verbatim>\<open>GET /stats\<close>.\<close>

record stats =
  total_cards :: nat
  due_now :: nat
  new_cards :: nat
  review_cards :: nat

text \<open>
  \<^verbatim>\<open>
  SELECT COUNT(*) as total_cards,
    COUNT(CASE WHEN date(c.due_date) <= date('now') THEN 1 END) as due_now,
    COUNT(CASE WHEN c.repetitions = 0 THEN 1 END) as new_cards,
    COUNT(CASE WHEN c.repetitions > 0 AND date(c.due_date) <= date('now') THEN 1 END)
      as review_cards
  FROM cards c JOIN decks d ON c.deck_id = d.id WHERE d.user_id = ? [AND c.deck_id = ?]
  \<close>
\<close>

definition review_stats :: "db \<Rightarrow> int \<Rightarrow> int option \<Rightarrow> int \<Rightarrow> stats" where
  "review_stats d user deckId now =
     (let rows = filter (in_scope d user deckId) (cards d)
      in \<lparr>total_cards = length rows,
          due_now = length (filter (is_due now) rows),
          new_cards = length (filter (\<lambda>c. repetitions c = 0) rows),
          review_cards = length (filter (\<lambda>c. repetitions c > 0 \<and> is_due now c) rows)\<rparr>)"

text \<open>
  \<^verbatim>\<open>
  SELECT date(c.due_date) as date, COUNT(*) as count
  FROM cards c JOIN decks d ON c.deck_id = d.id WHERE d.user_id = ? [AND c.deck_id = ?]
    AND date(c.due_date) > date('now') AND date(c.due_date) <= date('now', '+7 days')
  GROUP BY date(c.due_date) ORDER BY date(c.due_date)
  \<close>
\<close>

definition upcoming :: "db \<Rightarrow> int \<Rightarrow> int option \<Rightarrow> int \<Rightarrow> (int \<times> nat) list" where
  "upcoming d user deckId now =
     (let rows = filter (\<lambda>c. in_scope d user deckId c \<and>
                     date_of (due_date c) > date_now now \<and>
                     date_of (due_date c) \<le> date_now now + 7) (cards d)
      in map (\<lambda>day. (day, length (filter (\<lambda>c. date_of (due_date c) = day) rows)))
           (sort (remdups (map (\<lambda>c. date_of (due_date c)) rows))))"


section \<open>Submitting a review\<close>

text \<open>A field of the request body, as \<^verbatim>\<open>c.req.json()\<close> yields it.\<close>

datatype json = JNumber real | JString string | JBool bool | JNull | JUndefined

text \<open>
  The outcome of the request: an error response with its status and message, the updated
  card, or an exception the handler does not catch (the framework then answers with the
  status 500).
\<close>

datatype response = Error nat string | Updated "card option" | Thrown string

text \<open>
  \<^verbatim>\<open>
  SELECT c.* FROM cards c JOIN decks d ON c.deck_id = d.id
  WHERE c.id = ? AND d.user_id = ?
  \<close>
  with \<^verbatim>\<open>.get(cardId, user.id)\<close>: the first such row, if any. The \<^verbatim>\<open>cardId\<close> is a
  JavaScript number, the column \<^verbatim>\<open>id\<close> an integer.
\<close>

definition get_card :: "db \<Rightarrow> int \<Rightarrow> real \<Rightarrow> card option" where
  "get_card d user cardId =
     find (\<lambda>c. of_int (card_id c) = cardId \<and> decks d (deck_id c) = Some user) (cards d)"

text \<open>
  \<^verbatim>\<open>UPDATE cards SET ease_factor = ?, interval = ?, repetitions = ?, due_date = ? WHERE id = ?\<close>
\<close>

definition update_card :: "real \<Rightarrow> sm2 \<Rightarrow> due_text \<Rightarrow> card list \<Rightarrow> card list" where
  "update_card cardId r due rows =
     map (\<lambda>c. if of_int (card_id c) = cardId
            then c\<lparr>easeFactor := easeFactor r, interval := interval r,
                   repetitions := repetitions r, due_date := due\<rparr>
            else c) rows"

text \<open>
  The time zone of the server, which the code does not fix: \<open>tza t True\<close> is the offset of
  local time from UTC, in milliseconds, at the UTC instant \<open>t\<close>, and \<open>tza t False\<close> the
  offset at the local time value \<open>t\<close> (the \<^verbatim>\<open>LocalTZA(t, isUTC)\<close> of ECMAScript).
\<close>

type_synonym time_zone = "int \<Rightarrow> bool \<Rightarrow> int"

definition utc_zone :: time_zone where
  "utc_zone t isUTC = 0"

text \<open>
  \<^verbatim>\<open>
  const dueDate = new Date();
  dueDate.setDate(dueDate.getDate() + interval);
  ... dueDate.toISOString() ...
  \<close>
  \<^verbatim>\<open>setDate\<close> works on the local calendar: it takes the local time of \<open>now\<close>, moves the
  day of the month by \<open>interval\<close> days keeping the time of day, converts back to UTC, and
  makes the date invalid when the result is more than 8640000000000000 milliseconds from
  the epoch. \<^verbatim>\<open>toISOString()\<close> throws a \<^verbatim>\<open>RangeError\<close> on an invalid date (the value
  \<open>None\<close>) and otherwise returns the text of the instant.
\<close>

definition setDate_toISOString :: "time_zone \<Rightarrow> int \<Rightarrow> int \<Rightarrow> due_text option" where
  "setDate_toISOString tza now ivl =
     (let local = now + tza now True;
          newLocal = local + ivl * 86400000;
          u = newLocal - tza newLocal False
      in if \<bar>u\<bar> \<le> 8640000000000000 then Some (IsoString u) else None)"

text \<open>
  The route \<^verbatim>\<open>POST /submit\<close> at the instant \<open>now\<close>, returning the outcome and the
  database it leaves.
  \<^verbatim>\<open>
  if (typeof cardId !== "number" || typeof quality !== "number")
    return c.json({ error: "cardId and quality are required" }, 400);
  if (quality < 0 || quality > 5)
    return c.json({ error: "Quality must be between 0 and 5" }, 400);
  const card = ...;
  if (!card) return c.json({ error: "Card not found" }, 404);
  const { easeFactor, interval, repetitions } =
    calculateSM2(quality, card.ease_factor, card.interval, card.repetitions);
  const dueDate = new Date();
  dueDate.setDate(dueDate.getDate() + interval);
  db.run(UPDATE cards ..., [easeFactor, interval, repetitions, dueDate.toISOString(), cardId]);
  db.run(INSERT INTO review_history (card_id, quality, ease_factor, interval)
    VALUES (?, ?, ?, ?), [cardId, quality, easeFactor, interval]);
  return c.json({ card: SELECT * FROM cards WHERE id = cardId });
  \<close>
  The arguments of the first \<^verbatim>\<open>db.run\<close> are evaluated before it runs, so a
  \<^verbatim>\<open>RangeError\<close> of \<^verbatim>\<open>toISOString()\<close> leaves the database as it was.
\<close>

definition submit ::
  "time_zone \<Rightarrow> db \<Rightarrow> int \<Rightarrow> int \<Rightarrow> json \<Rightarrow> json \<Rightarrow> response \<times> db" where
  "submit tza d user now cardId quality =
     (case cardId of
        JNumber cid \<Rightarrow>
          (case quality of
             JNumber q \<Rightarrow>
               if q < 0 \<or> q > 5 then (Error 400 ''Quality must be between 0 and 5'', d)
               else
                 (case get_card d user cid of
                    None \<Rightarrow> (Error 404 ''Card not found'', d)
                  | Some row \<Rightarrow>
                      let r = calculateSM2 q (easeFactor row) (interval row)
                                (repetitions row)
                      in (case setDate_toISOString tza now (interval r) of
                            None \<Rightarrow> (Thrown ''RangeError'', d)
                          | Some due \<Rightarrow>
                              let d1 = d\<lparr>cards := update_card cid r due (cards d)\<rparr>;
                                  d2 = d1\<lparr>review_history := review_history d1 @
                                         [\<lparr>rh_card_id = card_id row, rh_quality = q,
                                           rh_ease_factor = easeFactor r,
                                           rh_interval = interval r\<rparr>]\<rparr>
                              in (Updated (find (\<lambda>c. of_int (card_id c) = cid) (cards d2)),
                                  d2)))
           | _ \<Rightarrow> (Error 400 ''cardId and quality are required'', d))
      | _ \<Rightarrow> (Error 400 ''cardId and quality are required'', d))"

text \<open>Whether the outcome is the updated card.\<close>

fun accepted :: "response \<Rightarrow> bool" where
  "accepted (Updated _) = True"
| "accepted (Error _ _) = False"
| "accepted (Thrown _) = False"

section \<open>Concrete databases\<close>

text \<open>
  One deck (id 1) of user 1 holding one new card (id 1), created on 2026-11-01 at 00:30:00
  UTC, the day 20758 since the epoch.
\<close>

definition new_card :: card where
  "new_card = \<lparr>easeFactor = 2.5, interval = 0, repetitions = 0, card_id = 1, deck_id = 1,
     card_front = ''Front'', card_back = ''Back'', due_date = SqlDatetime 1793493000\<rparr>"

definition one_card_db :: db where
  "one_card_db = \<lparr>cards = [new_card], decks = [1 \<mapsto> 1], review_history = []\<rparr>"

text \<open>
  The database the submit route leaves, on a server in UTC, after user 1 reviewed that card
  with quality 4 on 2026-11-01 at 01:00:00 UTC, the millisecond 1793494800000 (the due
  date it writes is \<^verbatim>\<open>2026-11-02T01:00:00.000Z\<close>), with a second card created on
  2026-11-02 at 23:00:00 UTC (due date \<^verbatim>\<open>2026-11-02 23:00:00\<close>).
\<close>

definition second_card :: card where
  "second_card = \<lparr>easeFactor = 2.5, interval = 0, repetitions = 0, card_id = 2, deck_id = 1,
     card_front = ''Front 2'', card_back = ''Back 2'', due_date = SqlDatetime 1793660400\<rparr>"

definition two_card_db :: db where
  "two_card_db =
     (let d = snd (submit utc_zone one_card_db 1 1793494800000 (JNumber 1) (JNumber 4))
      in d\<lparr>cards := cards d @ [second_card]\<rparr>)"

text \<open>
  The memory state of a card after fifteen reviews in a row with quality 5 (ease factor
  4.000000000000001, interval 30216170 days), and a database holding such a card.
\<close>

definition ripe_state :: sm2 where
  "ripe_state = \<lparr>easeFactor = 4503599627370497 / 2 ^ 50, interval = 30216170,
     repetitions = 15\<rparr>"

definition ripe_card :: card where
  "ripe_card = \<lparr>easeFactor = 4503599627370497 / 2 ^ 50, interval = 30216170,
     repetitions = 15, card_id = 1, deck_id = 1, card_front = ''Front'',
     card_back = ''Back'', due_date = IsoString 2612470582800000\<rparr>"

definition ripe_db :: db where
  "ripe_db = \<lparr>cards = [ripe_card], decks = [1 \<mapsto> 1], review_history = []\<rparr>"

text \<open>
  A database for the statistics, read on the day 20759 (2026-11-02): deck 1 of user 1 holds
  a new card due today, a new card due tomorrow, a reviewed card due yesterday, a reviewed
  card due in seven days and one due in eight days; deck 2 of user 2 holds one card.
\<close>

definition stats_card :: "int \<Rightarrow> int \<Rightarrow> int \<Rightarrow> due_text \<Rightarrow> card" where
  "stats_card i k reps due = \<lparr>easeFactor = 2.5,
     interval = (if reps = 0 then 0 else 6), repetitions = reps,
     card_id = i, deck_id = k, card_front = ''Q'', card_back = ''A'', due_date = due\<rparr>"

definition stats_db :: db where
  "stats_db = \<lparr>cards =
       [stats_card 1 1 0 (SqlDatetime 1793600000),
        stats_card 2 1 0 (SqlDatetime 1793670000),
        stats_card 3 1 3 (IsoString 1793500000000),
        stats_card 4 1 2 (IsoString 1794200000000),
        stats_card 5 1 2 (IsoString 1794280000000),
        stats_card 6 2 0 (SqlDatetime 1793600000)],
     decks = [1 \<mapsto> 1, 2 \<mapsto> 2], review_history = []\<rparr>"

section \<open>Properties of the rounding to doubles\<close>

lemma ilog_bounds:
  fixes a :: real
  assumes "1 \<le> a"
  shows "0 \<le> bitlen \<lfloor>a\<rfloor> - 1" "2 powi (bitlen \<lfloor>a\<rfloor> - 1) \<le> a"
    "a < 2 powi (bitlen \<lfloor>a\<rfloor> - 1 + 1)"
proof -
  let ?n = "\<lfloor>a\<rfloor>"
  let ?k = "bitlen ?n - 1"
  have n: "0 < ?n" using assms by simp
  from bitlen_bounds [OF n] have b: "2 ^ nat ?k \<le> ?n" "?n < 2 ^ nat (bitlen ?n)"
    by simp_all
  have "bitlen ?n \<noteq> 0"
    using n by (simp add: bitlen_eq_zero_iff)
  with bitlen_nonneg [of ?n] show k: "0 \<le> ?k" by linarith
  then have p: "(2::real) powi ?k = 2 ^ nat ?k" "(2::real) powi (?k + 1) = 2 ^ nat (bitlen ?n)"
    by (simp_all add: power_int_def)
  have "(2::real) ^ nat ?k \<le> of_int ?n"
    using b(1) by (metis of_int_le_iff of_int_numeral of_int_power)
  also have "\<dots> \<le> a" by simp
  finally show "2 powi ?k \<le> a" by (simp only: p)
  have "?n + 1 \<le> 2 ^ nat (bitlen ?n)" using b(2) by simp
  then have "of_int (?n + 1) \<le> (2::real) ^ nat (bitlen ?n)"
    by (metis of_int_le_iff of_int_numeral of_int_power)
  moreover have "a < of_int (?n + 1)" by linarith
  ultimately show "a < 2 powi (?k + 1)" by (simp only: p)
qed

lemma expo_bounds:
  assumes "0 < a"
  shows "2 powi expo a \<le> a" "a < 2 powi (expo a + 1)"
proof -
  have "2 powi expo a \<le> a \<and> a < 2 powi (expo a + 1)"
  proof (cases "1 \<le> a")
    case True
    then show ?thesis
      using ilog_bounds [of a] by (simp add: expo_def)
  next
    case False
    define y where "y = 1 / a"
    define k where "k = bitlen \<lfloor>y\<rfloor> - 1"
    have y: "1 \<le> y" "0 < y" and a: "a = 1 / y"
      using assms False by (simp_all add: y_def)
    from ilog_bounds [OF y(1)] have k: "0 \<le> k" "2 powi k \<le> y" "y < 2 powi (k + 1)"
      by (simp_all add: k_def)
    have pos: "0 < (2::real) powi j" for j by simp
    show ?thesis
    proof (cases "y = 2 powi k")
      case True
      then have e: "expo a = - k"
        using False by (simp add: expo_def y_def k_def Let_def)
      have "a = 2 powi (- k)"
        using True by (simp add: a power_int_minus_divide)
      moreover have "(2::real) powi (- k) < 2 powi (- k + 1)"
        by (intro power_int_strict_increasing) simp_all
      ultimately show ?thesis
        unfolding e by simp
    next
      case ne: False
      then have e: "expo a = - k - 1"
        using False by (simp add: expo_def y_def k_def Let_def)
      have "2 powi k < y" using k(2) ne by simp
      then have "1 / y < 1 / 2 powi k"
        using pos [of k] by (simp add: frac_less2)
      then have up: "a < 2 powi (- k)"
        by (simp add: a power_int_minus_divide)
      have "1 / 2 powi (k + 1) < 1 / y"
        using k(3) y(2) by (simp add: frac_less2)
      then have lo: "2 powi (- k - 1) < a"
        by (simp add: a power_int_minus_divide [symmetric])
      from lo up show ?thesis
        unfolding e by simp
    qed
  qed
  then show "2 powi expo a \<le> a" "a < 2 powi (expo a + 1)"
    by simp_all
qed

lemma expo_unique:
  assumes "0 < a" "2 powi e \<le> a" "a < 2 powi (e + 1)"
  shows "expo a = e"
proof (rule ccontr)
  assume "expo a \<noteq> e"
  then consider "expo a + 1 \<le> e" | "e + 1 \<le> expo a"
    by linarith
  then show False
  proof cases
    case 1
    then have "(2::real) powi (expo a + 1) \<le> 2 powi e"
      by (intro power_int_increasing) simp_all
    with assms(2) expo_bounds(2) [OF assms(1)] show False by linarith
  next
    case 2
    then have "(2::real) powi (e + 1) \<le> 2 powi expo a"
      by (intro power_int_increasing) simp_all
    with assms(3) expo_bounds(1) [OF assms(1)] show False by linarith
  qed
qed

lemma expo_mono:
  assumes "0 < a" "a \<le> b"
  shows "expo a \<le> expo b"
proof (rule ccontr)
  assume "\<not> expo a \<le> expo b"
  then have "expo b + 1 \<le> expo a" by simp
  then have "(2::real) powi (expo b + 1) \<le> 2 powi expo a"
    by (intro power_int_increasing) simp_all
  moreover have "0 < b" using assms by simp
  ultimately show False
    using expo_bounds(1) [OF assms(1)] expo_bounds(2) [of b] assms(2) by linarith
qed

lemma round_half_even_of_int: "round_half_even (of_int n) = n"
  by (simp add: round_half_even_def)

lemma round_half_even_cases:
  "round_half_even y = \<lfloor>y\<rfloor> \<or> round_half_even y = \<lfloor>y\<rfloor> + 1"
  by (simp add: round_half_even_def Let_def)

lemma round_half_even_error: "\<bar>of_int (round_half_even y) - y\<bar> \<le> 1 / 2"
proof -
  have "of_int \<lfloor>y\<rfloor> \<le> y" "y < of_int \<lfloor>y\<rfloor> + 1"
    by linarith+
  then show ?thesis
    by (auto simp: round_half_even_def Let_def)
qed

lemma round_half_even_mono:
  assumes "x \<le> y"
  shows "round_half_even x \<le> round_half_even y"
proof -
  have f: "\<lfloor>x\<rfloor> \<le> \<lfloor>y\<rfloor>" using assms by (rule floor_mono)
  show ?thesis
  proof (cases "\<lfloor>x\<rfloor> = \<lfloor>y\<rfloor>")
    case True
    then show ?thesis
      using assms by (auto simp: round_half_even_def Let_def)
  next
    case False
    with f have "\<lfloor>x\<rfloor> + 1 \<le> \<lfloor>y\<rfloor>" by simp
    moreover have "round_half_even x \<le> \<lfloor>x\<rfloor> + 1" "\<lfloor>y\<rfloor> \<le> round_half_even y"
      using round_half_even_cases [of x] round_half_even_cases [of y] by auto
    ultimately show ?thesis by linarith
  qed
qed

lemma round_half_even_minus: "round_half_even (- y) = - round_half_even y"
proof (cases "y \<in> \<int>")
  case True
  then obtain n where "y = of_int n" by (auto elim: Ints_cases)
  then show ?thesis
    using round_half_even_of_int [of n] round_half_even_of_int [of "- n"] by simp
next
  case False
  define fl where "fl = \<lfloor>y\<rfloor>"
  define t where "t = y - of_int fl"
  have ne: "of_int fl \<noteq> y"
    using False unfolding fl_def by (metis Ints_of_int)
  have "of_int fl \<le> y" "y < of_int fl + 1"
    unfolding fl_def by linarith+
  with ne have t: "0 < t" "t < 1"
    by (simp_all add: t_def)
  have f: "\<lfloor>- y\<rfloor> = - fl - 1"
    using ne by (simp add: floor_minus ceiling_altdef fl_def)
  have lhs: "round_half_even (- y) =
      (if 1 - t < 1 / 2 then - fl - 1 else if 1 / 2 < 1 - t then - fl
       else if even (- fl - 1) then - fl - 1 else - fl)"
    unfolding round_half_even_def Let_def f by (simp add: t_def algebra_simps)
  have rhs: "round_half_even y =
      (if t < 1 / 2 then fl else if 1 / 2 < t then fl + 1
       else if even fl then fl else fl + 1)"
    unfolding round_half_even_def Let_def fl_def [symmetric] t_def [symmetric] by simp
  show ?thesis
    unfolding lhs rhs using t by auto
qed

lemma expo_ge:
  assumes "0 < a" "2 powi e \<le> a"
  shows "e \<le> expo a"
proof (rule ccontr)
  assume "\<not> e \<le> expo a"
  then have "expo a + 1 \<le> e" by simp
  then have "(2::real) powi (expo a + 1) \<le> 2 powi e"
    by (intro power_int_increasing) simp_all
  with assms(2) expo_bounds(2) [OF assms(1)] show False by linarith
qed

lemma quantum_pos: "0 < quantum x"
  by (simp add: quantum_def)

lemma quantum_minus: "quantum (- x) = quantum x"
  by (simp add: quantum_def)

lemma to_double_0: "to_double 0 = 0"
  by (simp add: to_double_def)

lemma to_double_minus: "to_double (- x) = - to_double x"
  by (simp add: to_double_def quantum_minus round_half_even_minus)

lemma to_double_nonneg:
  assumes "0 \<le> x"
  shows "0 \<le> to_double x"
proof -
  have "0 \<le> x / quantum x"
    using assms quantum_pos [of x] by simp
  then have "round_half_even 0 \<le> round_half_even (x / quantum x)"
    by (rule round_half_even_mono)
  then have "0 \<le> round_half_even (x / quantum x)"
    using round_half_even_of_int [of 0] by simp
  then show ?thesis
    using quantum_pos [of x] by (simp add: to_double_def)
qed

lemma quantum_times:
  "quantum x * 2 ^ 53 = 2 powi (max (expo \<bar>x\<bar>) (- 1022) + 1)"
  "quantum x * 2 ^ 52 = 2 powi (max (expo \<bar>x\<bar>) (- 1022))"
proof -
  let ?c = "max (expo \<bar>x\<bar>) (- 1022)"
  have p: "(2::real) powi 53 = 2 ^ 53" "(2::real) powi 52 = 2 ^ 52"
    by simp_all
  have "(2::real) powi (?c - 52 + 53) = 2 powi (?c - 52) * 2 powi 53"
    by (rule power_int_add) simp
  moreover have "?c - 52 + 53 = ?c + 1" by simp
  ultimately have "(2::real) powi (?c + 1) = 2 powi (?c - 52) * 2 powi 53"
    by (simp only:)
  then show "quantum x * 2 ^ 53 = 2 powi (?c + 1)"
    by (simp only: quantum_def p)
  have "(2::real) powi (?c - 52 + 52) = 2 powi (?c - 52) * 2 powi 52"
    by (rule power_int_add) simp
  moreover have "?c - 52 + 52 = ?c" by simp
  ultimately have "(2::real) powi ?c = 2 powi (?c - 52) * 2 powi 52"
    by (simp only:)
  then show "quantum x * 2 ^ 52 = 2 powi ?c"
    by (simp only: quantum_def p)
qed

lemma to_double_upper:
  assumes "0 < x"
  shows "to_double x \<le> 2 powi (max (expo x) (- 1022) + 1)"
proof -
  let ?c = "max (expo x) (- 1022)"
  let ?u = "quantum x"
  have ax: "\<bar>x\<bar> = x" using assms by simp
  have "x < 2 powi (expo x + 1)"
    by (rule expo_bounds(2) [OF assms])
  also have "\<dots> \<le> 2 powi (?c + 1)"
    by (intro power_int_increasing) simp_all
  also have "\<dots> = ?u * 2 ^ 53"
    using quantum_times(1) [of x] by (simp add: ax)
  finally have "x / ?u \<le> 2 ^ 53"
    using quantum_pos [of x] by (simp add: field_simps)
  then have "round_half_even (x / ?u) \<le> round_half_even (of_int (2 ^ 53))"
    by (intro round_half_even_mono) simp
  then have "round_half_even (x / ?u) \<le> 2 ^ 53"
    by (simp only: round_half_even_of_int)
  then have "of_int (round_half_even (x / ?u)) \<le> (2::real) ^ 53"
    by (metis of_int_le_iff of_int_numeral of_int_power)
  then have "of_int (round_half_even (x / ?u)) * ?u \<le> 2 ^ 53 * ?u"
    using quantum_pos [of x] by (intro mult_right_mono) simp_all
  then show ?thesis
    using assms quantum_times(1) [of x] by (simp add: to_double_def ax mult.commute)
qed

lemma to_double_lower:
  assumes "0 < x" "- 1022 \<le> expo x"
  shows "2 powi expo x \<le> to_double x"
proof -
  let ?u = "quantum x"
  have ax: "\<bar>x\<bar> = x" using assms by simp
  have c: "max (expo x) (- 1022) = expo x" using assms(2) by simp
  have "?u * 2 ^ 52 = 2 powi expo x"
    using quantum_times(2) [of x] by (simp add: ax c)
  also have "\<dots> \<le> x"
    by (rule expo_bounds(1) [OF assms(1)])
  finally have "2 ^ 52 \<le> x / ?u"
    using quantum_pos [of x] by (simp add: field_simps)
  then have "round_half_even (of_int (2 ^ 52)) \<le> round_half_even (x / ?u)"
    by (intro round_half_even_mono) simp
  then have "2 ^ 52 \<le> round_half_even (x / ?u)"
    by (simp only: round_half_even_of_int)
  then have "(2::real) ^ 52 \<le> of_int (round_half_even (x / ?u))"
    by (metis of_int_le_iff of_int_numeral of_int_power)
  then have "2 ^ 52 * ?u \<le> of_int (round_half_even (x / ?u)) * ?u"
    using quantum_pos [of x] by (intro mult_right_mono) simp_all
  then show ?thesis
    using assms quantum_times(2) [of x] by (simp add: to_double_def ax c mult.commute)
qed

lemma to_double_mono_pos:
  assumes "0 < x" "x \<le> y"
  shows "to_double x \<le> to_double y"
proof -
  let ?cx = "max (expo x) (- 1022)"
  let ?cy = "max (expo y) (- 1022)"
  have y: "0 < y" using assms by simp
  have ax: "\<bar>x\<bar> = x" "\<bar>y\<bar> = y" using assms by simp_all
  have le: "?cx \<le> ?cy"
    using expo_mono [OF assms] by simp
  show ?thesis
  proof (cases "?cx = ?cy")
    case True
    then have q: "quantum x = quantum y"
      by (simp add: quantum_def ax)
    have "x / quantum y \<le> y / quantum y"
      using assms(2) quantum_pos [of y] by (simp add: divide_right_mono)
    then have "round_half_even (x / quantum y) \<le> round_half_even (y / quantum y)"
      by (rule round_half_even_mono)
    then have "of_int (round_half_even (x / quantum y)) * quantum y
        \<le> of_int (round_half_even (y / quantum y)) * quantum y"
      using quantum_pos [of y] by (intro mult_right_mono) simp_all
    then show ?thesis
      using assms y by (simp add: to_double_def q)
  next
    case False
    with le have lt: "?cx + 1 \<le> ?cy" by simp
    then have cy: "?cy = expo y" "- 1022 \<le> expo y"
      by (simp_all add: max_def split: if_splits)
    have "to_double x \<le> 2 powi (?cx + 1)"
      by (rule to_double_upper [OF assms(1)])
    also have "\<dots> \<le> 2 powi ?cy"
      using lt by (intro power_int_increasing) simp_all
    also have "\<dots> = 2 powi expo y"
      by (simp only: cy(1))
    also have "\<dots> \<le> to_double y"
      by (rule to_double_lower [OF y cy(2)])
    finally show ?thesis .
  qed
qed

lemma to_double_mono:
  assumes "x \<le> y"
  shows "to_double x \<le> to_double y"
proof -
  consider "0 < x" | "x \<le> 0" "0 \<le> y" | "y < 0"
    using assms by linarith
  then show ?thesis
  proof cases
    case 1
    then show ?thesis using assms by (rule to_double_mono_pos)
  next
    case 2
    then have "to_double (- x) \<ge> 0" "0 \<le> to_double y"
      by (simp_all add: to_double_nonneg)
    then show ?thesis by (simp add: to_double_minus)
  next
    case 3
    then have "to_double (- y) \<le> to_double (- x)"
      using assms by (intro to_double_mono_pos) simp_all
    then show ?thesis by (simp add: to_double_minus)
  qed
qed

lemma to_double_error:
  assumes "0 < x" "- 1022 \<le> expo x"
  shows "\<bar>to_double x - x\<bar> \<le> x / 2 ^ 53"
proof -
  let ?u = "quantum x"
  let ?n = "round_half_even (x / ?u)"
  have ax: "\<bar>x\<bar> = x" using assms by simp
  have c: "max (expo x) (- 1022) = expo x" using assms(2) by simp
  have u: "0 < ?u" by (rule quantum_pos)
  have "to_double x - x = (of_int ?n - x / ?u) * ?u"
    using assms(1) u by (simp add: to_double_def field_simps)
  then have "\<bar>to_double x - x\<bar> = \<bar>of_int ?n - x / ?u\<bar> * ?u"
    using u by (simp add: abs_mult)
  also have "\<dots> \<le> 1 / 2 * ?u"
    using u round_half_even_error [of "x / ?u"] by (intro mult_right_mono) simp_all
  also have "\<dots> = 2 powi expo x / 2 ^ 53"
    using quantum_times(2) [of x] by (simp add: ax c field_simps)
  also have "\<dots> \<le> x / 2 ^ 53"
    using expo_bounds(1) [OF assms(1)] by (simp add: divide_right_mono)
  finally show ?thesis .
qed

lemma mantissa_upper:
  assumes "0 < x"
  shows "round_half_even (x / quantum x) \<le> 2 ^ 53"
proof -
  let ?c = "max (expo x) (- 1022)"
  have ax: "\<bar>x\<bar> = x" using assms by simp
  have "x < 2 powi (expo x + 1)"
    by (rule expo_bounds(2) [OF assms])
  also have "\<dots> \<le> 2 powi (?c + 1)"
    by (intro power_int_increasing) simp_all
  also have "\<dots> = quantum x * 2 ^ 53"
    using quantum_times(1) [of x] by (simp add: ax)
  finally have "x / quantum x \<le> 2 ^ 53"
    using quantum_pos [of x] by (simp add: field_simps)
  then have "round_half_even (x / quantum x) \<le> round_half_even (of_int (2 ^ 53))"
    by (intro round_half_even_mono) simp
  then show ?thesis
    by (simp only: round_half_even_of_int)
qed

lemma mantissa_lower:
  assumes "0 < x" "- 1022 \<le> expo x"
  shows "2 ^ 52 \<le> round_half_even (x / quantum x)"
proof -
  have ax: "\<bar>x\<bar> = x" using assms by simp
  have c: "max (expo x) (- 1022) = expo x" using assms(2) by simp
  have "quantum x * 2 ^ 52 = 2 powi expo x"
    using quantum_times(2) [of x] by (simp add: ax c)
  also have "\<dots> \<le> x"
    by (rule expo_bounds(1) [OF assms(1)])
  finally have "2 ^ 52 \<le> x / quantum x"
    using quantum_pos [of x] by (simp add: field_simps)
  then have "round_half_even (of_int (2 ^ 52)) \<le> round_half_even (x / quantum x)"
    by (intro round_half_even_mono) simp
  then show ?thesis
    by (simp only: round_half_even_of_int)
qed

lemma to_double_idem_pos:
  assumes "0 < x"
  shows "to_double (to_double x) = to_double x"
proof -
  define c where "c = max (expo x) (- 1022)"
  define u where "u = quantum x"
  define n where "n = round_half_even (x / u)"
  define d where "d = of_int n * u"
  have ax: "\<bar>x\<bar> = x" using assms by simp
  have u: "0 < u" "u = 2 powi (c - 52)"
    by (simp_all add: u_def c_def quantum_def ax)
  have d: "to_double x = d"
    using assms by (simp add: to_double_def d_def n_def u_def)
  have c: "- 1022 \<le> c" by (simp add: c_def)
  have t: "u * 2 ^ 53 = 2 powi (c + 1)" "u * 2 ^ 52 = 2 powi c"
    using quantum_times [of x] by (simp_all add: u_def c_def ax)
  have n0: "0 \<le> n"
    using to_double_nonneg [of x] assms u(1) unfolding d d_def
    by (simp add: zero_le_mult_iff)
  have n53: "n \<le> 2 ^ 53"
    unfolding n_def u_def by (rule mantissa_upper [OF assms])
  have same: "to_double d = d" if "0 < d" "max (expo d) (- 1022) = c"
  proof -
    have "quantum d = u"
      using that by (simp add: quantum_def u(2))
    then show ?thesis
      using that(1) u(1) by (simp add: to_double_def d_def round_half_even_of_int)
  qed
  consider "n = 0" | "0 < n" "n < 2 ^ 52" | "2 ^ 52 \<le> n" "n < 2 ^ 53" | "n = 2 ^ 53"
    using n0 n53 by linarith
  then have "to_double d = d"
  proof cases
    case 1
    then show ?thesis by (simp add: d_def to_double_0)
  next
    case 2
    have dpos: "0 < d" using 2(1) u(1) by (simp add: d_def)
    have "of_int n < (2::real) ^ 52"
      using 2(2) by (metis of_int_less_iff of_int_numeral of_int_power)
    then have "d < u * 2 ^ 52"
      using u(1) by (simp add: d_def mult.commute)
    then have lt: "d < 2 powi c" by (simp only: t)
    have "\<not> - 1022 \<le> expo x"
      using mantissa_lower [OF assms] 2(2) by (auto simp: n_def u_def)
    then have c1022: "c = - 1022" by (simp add: c_def)
    have "expo d < c"
    proof (rule ccontr)
      assume "\<not> expo d < c"
      then have "(2::real) powi c \<le> 2 powi expo d"
        by (intro power_int_increasing) simp_all
      with expo_bounds(1) [OF dpos] lt show False by linarith
    qed
    then have "max (expo d) (- 1022) = c" by (simp add: c1022)
    with dpos show ?thesis by (rule same)
  next
    case 3
    have "(2::real) ^ 52 \<le> of_int n" "of_int n < (2::real) ^ 53"
      using 3 by (metis of_int_le_iff of_int_numeral of_int_power)
        (metis 3(2) of_int_less_iff of_int_numeral of_int_power)
    then have "u * 2 ^ 52 \<le> d" "d < u * 2 ^ 53"
      using u(1) by (simp_all add: d_def mult.commute)
    then have b: "2 powi c \<le> d" "d < 2 powi (c + 1)"
      by (simp_all only: t)
    then have dpos: "0 < d"
      by (meson less_le_trans zero_less_numeral zero_less_power_int)
    from expo_unique [OF dpos b] c have "max (expo d) (- 1022) = c" by simp
    with dpos show ?thesis by (rule same)
  next
    case 4
    then have "d = u * 2 ^ 53"
      by (simp add: d_def mult.commute)
    then have deq: "d = 2 powi (c + 1)" by (simp only: t)
    then have dpos: "0 < d" by simp
    have "d < 2 powi (c + 1 + 1)"
      unfolding deq by (intro power_int_strict_increasing) simp_all
    with deq have "expo d = c + 1"
      by (intro expo_unique [OF dpos]) simp_all
    then have m: "max (expo d) (- 1022) = c + 1" using c by simp
    have q: "quantum d = 2 powi (c + 1 - 52)"
      using dpos by (simp add: quantum_def m)
    have "(2::real) powi (c + 1 - 52 + 52) = 2 powi (c + 1 - 52) * 2 powi 52"
      by (rule power_int_add) simp
    moreover have "c + 1 - 52 + 52 = c + 1" by simp
    moreover have "(2::real) powi 52 = 2 ^ 52" by simp
    ultimately have a: "(2::real) powi (c + 1) = 2 powi (c + 1 - 52) * 2 ^ 52"
      by (simp only:)
    have "d = quantum d * 2 ^ 52"
      unfolding q by (simp only: deq a)
    moreover have "0 < quantum d" by (rule quantum_pos)
    ultimately have "d / quantum d = of_int (2 ^ 52)"
      by (simp add: field_simps)
    then have "round_half_even (d / quantum d) = 2 ^ 52"
      by (simp only: round_half_even_of_int)
    then show ?thesis
      using dpos \<open>d = quantum d * 2 ^ 52\<close> by (simp add: to_double_def mult.commute)
  qed
  then show ?thesis by (simp only: d)
qed

lemma to_double_idem: "to_double (to_double x) = to_double x"
proof -
  consider "0 < x" | "x = 0" | "x < 0" by linarith
  then show ?thesis
  proof cases
    case 1
    then show ?thesis by (rule to_double_idem_pos)
  next
    case 2
    then show ?thesis by (simp add: to_double_0)
  next
    case 3
    then have "to_double (to_double (- x)) = to_double (- x)"
      by (intro to_double_idem_pos) simp
    then show ?thesis by (simp add: to_double_minus)
  qed
qed

lemma is_double_to_double: "is_double (to_double x)"
  by (simp add: is_double_def to_double_idem)

section \<open>Evaluating the double arithmetic\<close>

lemma bitlen_numeral_eval:
  "bitlen (numeral n) = bitlen (numeral n div 2) + 1"
  "bitlen 1 = 1"
  by (subst compute_bitlen, simp)+

lemmas double_eval = to_double_def quantum_def expo_def bitlen_numeral_eval
  round_half_even_def Let_def

lemma lit_values:
  "lit (1 / 10) = 3602879701896397 / 2 ^ 55"
  "lit (2 / 25) = 5764607523034235 / 2 ^ 56"
  "lit (1 / 50) = 5764607523034235 / 2 ^ 58"
  "lit (13 / 10) = 5854679515581645 / 2 ^ 52"
  by (simp_all add: lit_def double_eval)

lemma small_int_exact:
  "num_sub 5 0 = 5" "num_sub 5 1 = 4" "num_sub 5 2 = 3" "num_sub 5 3 = 2" "num_sub 5 4 = 1"
  "num_sub 5 5 = 0"
  by (simp_all add: num_sub_def double_eval)

lemma ef_delta_values:
  "ef_delta 0 = - (7205759403792793 / 2 ^ 53)"
  "ef_delta 1 = - (607985949695017 / 2 ^ 50)"
  "ef_delta 2 = - (1441151880758559 / 2 ^ 52)"
  "ef_delta 3 = - (5044031582654955 / 2 ^ 55)"
  "ef_delta 4 = 0"
  "ef_delta 5 = 3602879701896397 / 2 ^ 55"
  by (simp_all add: ef_delta_def small_int_exact lit_values num_sub_def num_add_def
      num_mul_def double_eval)

section \<open>Properties of the scheduler\<close>

lemma Math_round_of_int: "Math_round (of_int k) = k"
  by (simp add: Math_round_def)

lemma Math_round_mono: "x \<le> y \<Longrightarrow> Math_round x \<le> Math_round y"
  by (simp add: Math_round_def floor_mono)

lemma clamp_quality_range: "0 \<le> clamp_quality q \<and> clamp_quality q \<le> 5"
  by (simp add: clamp_quality_def)


lemma clamp_quality_of_int: "clamp_quality (of_int k) = max 0 (min 5 k)"
  by (simp add: clamp_quality_def Math_round_of_int)

lemma clamp_quality_idem: "clamp_quality (of_int (clamp_quality q)) = clamp_quality q"
  by (simp add: clamp_quality_of_int) (simp add: clamp_quality_def)

lemma sm2_easeFactor_eq:
  "easeFactor (calculateSM2 q ef ivl reps) =
     max (lit 1.3) (num_add ef (ef_delta (clamp_quality q)))"
  by (simp add: calculateSM2_def ef_delta_def Let_def max_def)

lemma sm2_interval_eq:
  "interval (calculateSM2 q ef ivl reps) =
     (if clamp_quality q < 3 then 1 else if reps = 0 then 1 else if reps = 1 then 6
      else Math_round (num_mul (of_int ivl) ef))"
  by (simp add: calculateSM2_def Let_def)

lemma sm2_repetitions_eq:
  "repetitions (calculateSM2 q ef ivl reps) = (if clamp_quality q < 3 then 0 else reps + 1)"
  by (simp add: calculateSM2_def Let_def)

lemma calculateSM2_eval:
  "calculateSM2 q ef ivl reps =
     \<lparr>easeFactor = max (lit 1.3) (num_add ef (ef_delta (clamp_quality q))),
      interval = (if clamp_quality q < 3 then 1 else if reps = 0 then 1
                  else if reps = 1 then 6 else Math_round (num_mul (of_int ivl) ef)),
      repetitions = (if clamp_quality q < 3 then 0 else reps + 1)\<rparr>"
  by (simp add: calculateSM2_def ef_delta_def Let_def max_def)

lemma calculateSM2_cong_quality:
  "clamp_quality q1 = clamp_quality q2 \<Longrightarrow>
   calculateSM2 q1 ef ivl reps = calculateSM2 q2 ef ivl reps"
  by (simp add: calculateSM2_def)

lemma lit_floor_ge: "1.3 \<le> lit 1.3" "lit 1.3 - 1.3 \<le> 1 / 2 ^ 53"
  by (simp_all add: lit_values)


lemma ef_delta_near_exact:
  assumes "0 \<le> k" "k \<le> 5"
  shows "\<bar>ef_delta k - ef_delta_exact k\<bar> \<le> 1 / 2 ^ 53"
proof -
  from assms consider "k = 0" | "k = 1" | "k = 2" | "k = 3" | "k = 4" | "k = 5"
    by linarith
  then show ?thesis
    by cases (simp_all add: ef_delta_values ef_delta_exact_def)
qed

lemma ef_delta_exact_bounds:
  assumes "0 \<le> k" "k \<le> 5"
  shows "- 0.8 \<le> ef_delta_exact k" "ef_delta_exact k \<le> 0.1"
proof -
  from assms consider "k = 0" | "k = 1" | "k = 2" | "k = 3" | "k = 4" | "k = 5"
    by linarith
  then show "- 0.8 \<le> ef_delta_exact k" "ef_delta_exact k \<le> 0.1"
    by (cases; simp add: ef_delta_exact_def)+
qed

lemma easeFactor_advance_ge: "1.3 \<le> easeFactor (advance q s)"
  using lit_floor_ge(1) by (simp add: advance_def sm2_easeFactor_eq max_def)

lemma easeFactor_advance_all_ge:
  "1.3 \<le> easeFactor s \<Longrightarrow> 1.3 \<le> easeFactor (advance_all s qs)"
proof (induction qs arbitrary: s)
  case Nil
  then show ?case by simp
next
  case (Cons q qs)
  have "1.3 \<le> easeFactor (advance q s)"
    by (rule easeFactor_advance_ge)
  then show ?case
    using Cons.IH by simp
qed

lemma expo_normal:
  assumes "1 / 4 \<le> x"
  shows "- 1022 \<le> expo x"
proof -
  have "0 < x" using assms by simp
  moreover have "(2::real) powi (- 2) \<le> x" using assms by simp
  ultimately have "- 2 \<le> expo x" by (rule expo_ge)
  then show ?thesis by simp
qed

lemma num_add_near_exact:
  assumes "1.3 \<le> ef" "0 \<le> k" "k \<le> 5"
  shows "\<bar>num_add ef (ef_delta k) - (ef + ef_delta_exact k)\<bar> \<le> (ef + 2) / 2 ^ 53"
proof -
  define s where "s = ef + ef_delta k"
  note n = ef_delta_near_exact [OF assms(2,3)]
  note b = ef_delta_exact_bounds [OF assms(2,3)]
  have e: "(1::real) / 2 ^ 53 \<le> 1 / 10" by simp
  have s: "1 / 4 \<le> s" "s \<le> ef + 1"
    using assms(1) n b e unfolding s_def by linarith+
  then have "0 < s" by simp
  from to_double_error [OF this expo_normal [OF s(1)]]
  have "\<bar>to_double s - s\<bar> \<le> s / 2 ^ 53" .
  also have "\<dots> \<le> (ef + 1) / 2 ^ 53"
    using s(2) by (simp add: divide_right_mono)
  finally have r: "\<bar>num_add ef (ef_delta k) - s\<bar> \<le> (ef + 1) / 2 ^ 53"
    by (simp add: num_add_def s_def)
  have "\<bar>s - (ef + ef_delta_exact k)\<bar> \<le> 1 / 2 ^ 53"
    using n by (simp add: s_def)
  with r have "\<bar>num_add ef (ef_delta k) - (ef + ef_delta_exact k)\<bar>
      \<le> (ef + 1) / 2 ^ 53 + 1 / 2 ^ 53"
    by linarith
  also have "\<dots> = (ef + 2) / 2 ^ 53"
    by (simp add: field_simps)
  finally show ?thesis .
qed

lemma max_near:
  fixes a b c d e :: real
  assumes "\<bar>a - c\<bar> \<le> e" "\<bar>b - d\<bar> \<le> e"
  shows "\<bar>max a b - max c d\<bar> \<le> e"
  using assms by (auto simp: max_def)

text \<open>
  Claim C1. For every memory state and every quality, with \<open>q\<close> the quality rounded and
  then clamped: if \<open>q < 3\<close> the result has zero repetitions and interval 1, whatever the
  prior state; otherwise the repetitions are the prior ones plus one and the interval is 1
  when the prior repetitions are 0, 6 when they are 1, and
  \<open>round (prior interval \<times> prior ease factor)\<close> when they are at least 2, the product being
  the double product the code computes. That interval is within a half, plus the rounding
  error of the product, of the exact product.
\<close>

theorem calculateSM2_interval_repetitions:
  "(clamp_quality quality < 3 \<longrightarrow>
      repetitions (calculateSM2 quality ef ivl reps) = 0 \<and>
      interval (calculateSM2 quality ef ivl reps) = 1) \<and>
   (3 \<le> clamp_quality quality \<longrightarrow>
      repetitions (calculateSM2 quality ef ivl reps) = reps + 1 \<and>
      (reps = 0 \<longrightarrow> interval (calculateSM2 quality ef ivl reps) = 1) \<and>
      (reps = 1 \<longrightarrow> interval (calculateSM2 quality ef ivl reps) = 6) \<and>
      (2 \<le> reps \<longrightarrow>
         interval (calculateSM2 quality ef ivl reps) = round (num_mul (of_int ivl) ef) \<and>
         (1 \<le> of_int ivl * ef \<longrightarrow>
            \<bar>of_int (interval (calculateSM2 quality ef ivl reps)) - of_int ivl * ef\<bar>
              \<le> 1 / 2 + of_int ivl * ef / 2 ^ 53)))"
proof -
  have near: "\<bar>of_int (round (num_mul (of_int ivl) ef)) - of_int ivl * ef\<bar>
      \<le> 1 / 2 + of_int ivl * ef / 2 ^ 53" if "1 \<le> of_int ivl * ef"
  proof -
    let ?x = "of_int ivl * ef"
    have x: "0 < ?x" "1 / 4 \<le> ?x" using that by simp_all
    have "\<bar>to_double ?x - ?x\<bar> \<le> ?x / 2 ^ 53"
      by (rule to_double_error [OF x(1) expo_normal [OF x(2)]])
    moreover have "\<bar>of_int (round (to_double ?x)) - to_double ?x\<bar> \<le> 1 / 2"
      by (rule of_int_round_abs_le)
    ultimately show ?thesis
      unfolding num_mul_def by linarith
  qed
  show ?thesis
    using near
    by (simp add: sm2_interval_eq sm2_repetitions_eq Math_round_def round_def)
qed

theorem calculateSM2_interval_repetitions_witness:
  "clamp_quality 2 < 3 \<and>
   repetitions (calculateSM2 2 2.5 10 5) = 0 \<and> interval (calculateSM2 2 2.5 10 5) = 1 \<and>
   3 \<le> clamp_quality 4 \<and>
   repetitions (calculateSM2 4 2.5 0 0) = 1 \<and> interval (calculateSM2 4 2.5 0 0) = 1 \<and>
   repetitions (calculateSM2 4 2.5 1 1) = 2 \<and> interval (calculateSM2 4 2.5 1 1) = 6 \<and>
   repetitions (calculateSM2 4 2.5 6 2) = 3 \<and> interval (calculateSM2 4 2.5 6 2) = 15 \<and>
   interval (calculateSM2 4 (lit 1.38) 75 2) = 103 \<and>
   interval (calculateSM2 4 (lit 2.38) 275 2) = 655 \<and>
   interval (advance_all \<lparr>easeFactor = 2.5, interval = 0, repetitions = 0\<rparr>
     [2, 1, 3, 4, 4, 4]) = 13"
proof -
  have q2: "clamp_quality 2 < 3" and q4: "3 \<le> clamp_quality 4"
    by (simp_all add: clamp_quality_def Math_round_def)
  have r: "round (num_mul (of_int 6) 2.5) = 15"
    "round (num_mul (of_int 75) (lit 1.38)) = 103"
    "round (num_mul (of_int 275) (lit 2.38)) = 655"
    by (simp_all add: round_def num_mul_def lit_def double_eval)
  have c: "clamp_quality 1 = 1" "clamp_quality 2 = 2" "clamp_quality 3 = 3"
    "clamp_quality 4 = 4"
    by (simp_all add: clamp_quality_def Math_round_def)
  have s: "advance_all \<lparr>easeFactor = 2.5, interval = 0, repetitions = 0\<rparr> [2, 1, 3, 4, 4] =
      \<lparr>easeFactor = 6755399441055743 / 2 ^ 52, interval = 9, repetitions = 3\<rparr>"
    by (simp add: advance_def calculateSM2_eval c ef_delta_values lit_values num_add_def
        num_mul_def Math_round_def double_eval)
  have a: "advance_all \<lparr>easeFactor = 2.5, interval = 0, repetitions = 0\<rparr>
      [2, 1, 3, 4, 4, 4] =
      advance 4 \<lparr>easeFactor = 6755399441055743 / 2 ^ 52, interval = 9, repetitions = 3\<rparr>"
    using s by simp
  have l: "round (num_mul (of_int 9) (6755399441055743 / 2 ^ 52)) = 13"
    by (simp add: round_def num_mul_def double_eval)
  show ?thesis
    unfolding a advance_def
    using q2 q4 r l
      calculateSM2_interval_repetitions [of 2 "2.5" 10 5]
      calculateSM2_interval_repetitions [of 4 "2.5" 0 0]
      calculateSM2_interval_repetitions [of 4 "2.5" 1 1]
      calculateSM2_interval_repetitions [of 4 "2.5" 6 2]
      calculateSM2_interval_repetitions [of 4 "lit 1.38" 75 2]
      calculateSM2_interval_repetitions [of 4 "lit 2.38" 275 2]
      calculateSM2_interval_repetitions [of 4 "6755399441055743 / 2 ^ 52" 9 3]
    by simp
qed

text \<open>
  Claim C2. In the failure branch and in the success branch alike, the returned ease factor
  is \<open>max 1.3 (prior ease factor + (0.1 - (5 - q) \<times> (0.08 + (5 - q) \<times> 0.02)))\<close> with \<open>q\<close>
  the rounded and clamped quality, every literal being a double and every operation the
  double operation, as the code evaluates them. It depends on the prior ease factor and on
  \<open>q\<close> only, not on the interval or the repetitions, old or new. On a memory state (ease
  factor at least 1.3) it differs from the exact value of the formula by at most
  \<open>(ease factor + 2) / 2\<^sup>5\<^sup>3\<close>.
\<close>

theorem calculateSM2_easeFactor:
  "easeFactor (calculateSM2 quality ef ivl reps) =
     max (lit 1.3)
       (num_add ef
          (num_sub (lit 0.1)
             (num_mul (num_sub 5 (of_int (clamp_quality quality)))
                (num_add (lit 0.08)
                   (num_mul (num_sub 5 (of_int (clamp_quality quality))) (lit 0.02)))))) \<and>
   easeFactor (calculateSM2 quality ef ivl reps) =
     easeFactor (calculateSM2 quality ef ivl' reps') \<and>
   (1.3 \<le> ef \<longrightarrow>
      \<bar>easeFactor (calculateSM2 quality ef ivl reps) -
         max 1.3 (ef + (0.1 - (5 - of_int (clamp_quality quality)) *
                          (0.08 + (5 - of_int (clamp_quality quality)) * 0.02)))\<bar>
        \<le> (ef + 2) / 2 ^ 53)"
proof -
  let ?q = "clamp_quality quality"
  have 1: "easeFactor (calculateSM2 quality ef ivl reps) =
     max (lit 1.3) (num_add ef (ef_delta ?q))" for ivl reps
    by (rule sm2_easeFactor_eq)
  have 3: "\<bar>max (lit 1.3) (num_add ef (ef_delta ?q)) - max 1.3 (ef + ef_delta_exact ?q)\<bar>
      \<le> (ef + 2) / 2 ^ 53" if ef: "1.3 \<le> ef"
  proof (rule max_near)
    have "1 / 2 ^ 53 \<le> (ef + 2) / (2 ^ 53 :: real)"
      using ef by (simp add: divide_right_mono)
    with lit_floor_ge show "\<bar>lit 1.3 - 1.3\<bar> \<le> (ef + 2) / 2 ^ 53"
      by linarith
    show "\<bar>num_add ef (ef_delta ?q) - (ef + ef_delta_exact ?q)\<bar> \<le> (ef + 2) / 2 ^ 53"
      using ef clamp_quality_range [of quality] by (intro num_add_near_exact) simp_all
  qed
  show ?thesis
    using 3 unfolding 1 by (simp add: ef_delta_def ef_delta_exact_def)
qed

theorem calculateSM2_easeFactor_witness:
  "easeFactor (calculateSM2 2 2.5 10 5) = 306807724614615 / 2 ^ 47 \<and>
   easeFactor (calculateSM2 2 2.5 10 5) = easeFactor (calculateSM2 2 2.5 1 0) \<and>
   easeFactor (calculateSM2 5 2.5 6 2) = lit 2.6 \<and>
   (1.3::real) \<le> 2.5 \<and>
   \<bar>easeFactor (calculateSM2 2 2.5 10 5) - 2.18\<bar> \<le> (2.5 + 2) / 2 ^ 53"
proof -
  have c: "clamp_quality 2 = 2" "clamp_quality 5 = 5"
    by (simp_all add: clamp_quality_def Math_round_def)
  have v: "num_add 2.5 (ef_delta 2) = 306807724614615 / 2 ^ 47"
    "num_add 2.5 (ef_delta 5) = lit 2.6"
    by (simp_all add: ef_delta_values num_add_def lit_def double_eval)
  have l: "lit 1.3 \<le> 306807724614615 / 2 ^ 47" "lit 1.3 \<le> lit 2.6"
    by (simp_all add: lit_values) (simp add: lit_def double_eval)
  have e: "easeFactor (calculateSM2 2 2.5 10 5) = 306807724614615 / 2 ^ 47"
    "easeFactor (calculateSM2 5 2.5 6 2) = lit 2.6"
    unfolding sm2_easeFactor_eq c v using l by (simp_all only: max_absorb2)
  show ?thesis
    using e calculateSM2_easeFactor [of 2 "2.5" 10 5 1 0] by (simp add: c)
qed

text \<open>
  Claim C3. From a memory state whose ease factor is at least 1.3 (the initial 2.5 is one),
  the ease factor is at least 1.3 after one call and after every finite sequence of calls,
  whatever the qualities submitted.
\<close>

theorem easeFactor_never_below_floor:
  assumes "1.3 \<le> easeFactor s"
  shows "1.3 \<le> easeFactor (advance q s) \<and> 1.3 \<le> easeFactor (advance_all s qs)"
  using assms easeFactor_advance_ge [of q s] easeFactor_advance_all_ge [of s qs] by simp

theorem easeFactor_never_below_floor_witness:
  "1.3 \<le> easeFactor \<lparr>easeFactor = 2.5, interval = 0, repetitions = 0\<rparr> \<and>
   1.3 \<le> easeFactor (advance 0 \<lparr>easeFactor = 2.5, interval = 0, repetitions = 0\<rparr>) \<and>
   1.3 \<le> easeFactor
      (advance_all \<lparr>easeFactor = 2.5, interval = 0, repetitions = 0\<rparr> [0, 0, 3, 0])"
proof -
  have h: "1.3 \<le> easeFactor \<lparr>easeFactor = 2.5, interval = 0, repetitions = 0\<rparr>"
    by simp
  show ?thesis
    using h easeFactor_never_below_floor [OF h, of 0 "[0, 0, 3, 0]"] by simp
qed

text \<open>
  Claim C4. The quality is rounded first and then clamped to the integers 0 to 5, so
  \<open>advance (-1) s = advance 0 s\<close> and \<open>advance 10 s = advance 5 s\<close> for every state, and two
  qualities with the same rounded and clamped value give identical results.
\<close>

theorem advance_clamps_quality:
  "advance (- 1) s = advance 0 s \<and> advance 10 s = advance 5 s \<and>
   advance quality s = advance (of_int (max 0 (min 5 (Math_round quality)))) s \<and>
   (clamp_quality q1 = clamp_quality q2 \<longrightarrow> advance q1 s = advance q2 s)"
proof -
  have "clamp_quality (- 1) = clamp_quality 0" "clamp_quality 10 = clamp_quality 5"
    by (simp_all add: clamp_quality_def Math_round_def)
  moreover have
    "clamp_quality quality = clamp_quality (of_int (max 0 (min 5 (Math_round quality))))"
    using clamp_quality_idem [of quality] by (simp add: clamp_quality_def)
  ultimately show ?thesis
    unfolding advance_def
    using calculateSM2_cong_quality [of "- 1" 0] calculateSM2_cong_quality [of 10 5]
      calculateSM2_cong_quality [of quality "of_int (max 0 (min 5 (Math_round quality)))"]
      calculateSM2_cong_quality [of q1 q2]
    by blast
qed

theorem advance_clamps_quality_witness:
  "clamp_quality 2.5 = clamp_quality 3.4 \<and>
   advance 2.5 \<lparr>easeFactor = 2.5, interval = 6, repetitions = 2\<rparr> =
   advance 3.4 \<lparr>easeFactor = 2.5, interval = 6, repetitions = 2\<rparr>"
proof -
  have h: "clamp_quality 2.5 = clamp_quality 3.4"
    by (simp add: clamp_quality_def Math_round_def)
  show ?thesis
    using h advance_clamps_quality
      [of "\<lparr>easeFactor = 2.5, interval = 6, repetitions = 2\<rparr>" 0 "2.5" "3.4"]
    by simp
qed




text \<open>
  Claim C10. Quality 4 leaves the ease factor of every memory state (a double that is at
  least 1.3) exactly as it was, the increment \<open>0.1 - 1 \<times> (0.08 + 1 \<times> 0.02)\<close> being zero, in
  exact arithmetic and in the double arithmetic of the code alike, while the repetitions
  and the interval still advance. In general the result is the larger of 1.3 and the
  prior ease factor.
\<close>

theorem quality_four_keeps_easeFactor:
  "(0.1 - 1 * (0.08 + 1 * 0.02) = (0::real)) \<and>
   num_sub (lit 0.1) (num_mul 1 (num_add (lit 0.08) (num_mul 1 (lit 0.02)))) = 0 \<and>
   easeFactor (calculateSM2 4 ef ivl reps) = max (lit 1.3) (to_double ef) \<and>
   (is_double ef \<longrightarrow> easeFactor (calculateSM2 4 ef ivl reps) = max (lit 1.3) ef) \<and>
   (is_double ef \<and> 1.3 \<le> ef \<longrightarrow> easeFactor (calculateSM2 4 ef ivl reps) = ef) \<and>
   repetitions (calculateSM2 4 ef ivl reps) = reps + 1 \<and>
   interval (calculateSM2 4 ef ivl reps) =
     (if reps = 0 then 1 else if reps = 1 then 6 else Math_round (num_mul (of_int ivl) ef))"
proof -
  have c4: "clamp_quality 4 = 4"
    by (simp add: clamp_quality_def Math_round_def)
  have z: "num_sub (lit 0.1) (num_mul 1 (num_add (lit 0.08) (num_mul 1 (lit 0.02)))) = 0"
    using ef_delta_values(5) by (simp add: ef_delta_def small_int_exact)
  have e: "easeFactor (calculateSM2 4 ef ivl reps) = max (lit 1.3) (to_double ef)"
    by (simp add: sm2_easeFactor_eq c4 ef_delta_values num_add_def)
  have "lit 1.3 \<le> ef" if "is_double ef" "1.3 \<le> ef"
  proof -
    have "to_double 1.3 \<le> to_double ef"
      using that(2) by (rule to_double_mono)
    then show ?thesis
      using that(1) by (simp add: lit_def is_double_def)
  qed
  then have k: "is_double ef \<and> 1.3 \<le> ef \<longrightarrow> easeFactor (calculateSM2 4 ef ivl reps) = ef"
    by (auto simp: e is_double_def max_def)
  show ?thesis
    using z e k
    by (simp add: sm2_interval_eq sm2_repetitions_eq c4 is_double_def)
qed

theorem quality_four_keeps_easeFactor_witness:
  "is_double 2.5 \<and> (1.3::real) \<le> 2.5 \<and> easeFactor (calculateSM2 4 2.5 6 2) = 2.5 \<and>
   repetitions (calculateSM2 4 2.5 6 2) = 3 \<and> interval (calculateSM2 4 2.5 6 2) = 15"
proof -
  have d: "is_double 2.5"
    by (simp add: is_double_def double_eval)
  have r: "Math_round (num_mul (of_int 6) 2.5) = 15"
    by (simp add: Math_round_def num_mul_def double_eval)
  show ?thesis
    using d r quality_four_keeps_easeFactor [of "2.5" 6 2] by simp
qed

section \<open>Properties of the stored due dates\<close>

lemma fst_text_key: "fst (text_key t) = date_of t"
  by (cases t) simp_all

lemma lex_div_mod:
  fixes a b n :: int
  assumes "0 < n"
  shows "(a div n < b div n \<or> a div n \<le> b div n \<and> a mod n \<le> b mod n) \<longleftrightarrow> a \<le> b"
proof -
  have a: "a = n * (a div n) + a mod n" and b: "b = n * (b div n) + b mod n"
    by simp_all
  consider "a div n < b div n" | "a div n = b div n" | "b div n < a div n"
    by linarith
  then show ?thesis
  proof cases
    case 1
    then have "\<not> b div n \<le> a div n" by simp
    then have "\<not> b \<le> a" using zdiv_mono1 [of b a n] assms by blast
    with 1 show ?thesis by simp
  next
    case 2
    have m: "a mod n = a - n * (a div n)" "b mod n = b - n * (b div n)"
      by (simp_all add: minus_mult_div_eq_mod)
    have "a mod n \<le> b mod n \<longleftrightarrow> a \<le> b"
      unfolding m 2 by linarith
    with 2 show ?thesis by simp
  next
    case 3
    then have "\<not> a div n \<le> b div n" by simp
    then have "\<not> a \<le> b" using zdiv_mono1 [of a b n] assms by blast
    with 3 show ?thesis by simp
  qed
qed

text \<open>Among due dates written in one format the text order is the order of the instants.\<close>

lemma text_key_same_format:
  "text_key (SqlDatetime a) \<le> text_key (SqlDatetime b) \<longleftrightarrow>
     instant_ms (SqlDatetime a) \<le> instant_ms (SqlDatetime b)"
  "text_key (IsoString a) \<le> text_key (IsoString b) \<longleftrightarrow>
     instant_ms (IsoString a) \<le> instant_ms (IsoString b)"
  using lex_div_mod [of 86400 a b] lex_div_mod [of 86400000 a b] by simp_all

text \<open>Whatever the formats, the text order never puts a later calendar date first.\<close>

lemma text_key_date_mono: "text_key s \<le> text_key t \<Longrightarrow> date_of s \<le> date_of t"
  by (cases s; cases t) auto

section \<open>Properties of the due-set selector\<close>

lemma selectDue_sound:
  "c \<in> set (selectDue d user deckId now) \<Longrightarrow>
     c \<in> set (cards d) \<and> in_scope d user deckId c \<and> is_due now c"
  unfolding selectDue_def by (auto dest: in_set_takeD)

lemma selectDue_length: "length (selectDue d user deckId now) \<le> 50"
  by (simp add: selectDue_def)

lemma selectDue_complete:
  assumes "length (filter (\<lambda>c. in_scope d user deckId c \<and> is_due now c) (cards d)) \<le> 50"
  shows "set (selectDue d user deckId now) =
           {c \<in> set (cards d). in_scope d user deckId c \<and> is_due now c}"
  using assms by (auto simp: selectDue_def)

lemma selectDue_sorted_text:
  "sorted (map (\<lambda>c. text_key (due_date c)) (selectDue d user deckId now))"
  unfolding selectDue_def take_map [symmetric]
  by (intro sorted_wrt_take) simp

lemma selectDue_sorted_dates:
  "sorted (map (\<lambda>c. date_of (due_date c)) (selectDue d user deckId now))"
proof -
  have "sorted (map fst (map (\<lambda>c. text_key (due_date c)) (selectDue d user deckId now)))"
    using selectDue_sorted_text [of d user deckId now]
    by (intro sorted_map_mono) (auto simp: mono_on_def less_eq_prod_def)
  then show ?thesis
    by (simp add: comp_def fst_text_key)
qed

text \<open>
  Claim C6. The selector returns the cards of the owner (of one deck when a deck filter is
  given) whose due date is today's date or an earlier one, at most 50 of them, oldest due
  date first. The lemmas above prove the scope, the date-level comparison, the cap and the
  ascending order of the calendar dates. The order inside one calendar date is the order
  of the stored texts: in the database \<open>two_card_db\<close>, read on 2026-11-02 at 23:30:00 UTC,
  card 2 (due \<^verbatim>\<open>2026-11-02 23:00:00\<close>) is returned before card 1 (due
  \<^verbatim>\<open>2026-11-02T01:00:00.000Z\<close>), although card 1 is due 22 hours earlier.
\<close>

theorem selectDue_order_mixed_formats:
  "map card_id (selectDue two_card_db 1 None 1793662200000) = [2, 1] \<and>
   map (\<lambda>c. due_date c) (selectDue two_card_db 1 None 1793662200000) =
     [SqlDatetime 1793660400, IsoString 1793581200000] \<and>
   map (\<lambda>c. instant_ms (due_date c)) (selectDue two_card_db 1 None 1793662200000) =
     [1793660400000, 1793581200000] \<and>
   \<not> sorted (map (\<lambda>c. instant_ms (due_date c)) (selectDue two_card_db 1 None 1793662200000))"
proof -
  have c: "clamp_quality 4 = 4"
    by (simp add: clamp_quality_def Math_round_def)
  have r: "calculateSM2 4 (5 / 2) 0 0 = \<lparr>easeFactor = 5 / 2, interval = 1, repetitions = 1\<rparr>"
    by (simp add: calculateSM2_eval c ef_delta_values lit_values num_add_def double_eval)
  have d: "two_card_db = \<lparr>cards =
      [new_card\<lparr>easeFactor := 5 / 2, interval := 1, repetitions := 1,
         due_date := IsoString 1793581200000\<rparr>, second_card],
      decks = [1 \<mapsto> 1],
      review_history = [\<lparr>rh_card_id = 1, rh_quality = 4, rh_ease_factor = 5 / 2,
        rh_interval = 1\<rparr>]\<rparr>"
    by (simp add: two_card_db_def submit_def get_card_def one_card_db_def new_card_def r
        setDate_toISOString_def utc_zone_def update_card_def Let_def)
  show ?thesis
    unfolding d
    by (simp add: selectDue_def new_card_def second_card_def in_scope_def is_due_def
        date_now_def)
qed

section \<open>Properties of the statistics\<close>

lemma length_filter_pos_iff: "0 < length (filter P xs) \<longleftrightarrow> (\<exists>x\<in>set xs. P x)"
  by (simp add: filter_empty_conv)

lemma upcoming_entry:
  "(day, n) \<in> set (upcoming d user deckId now) \<longleftrightarrow>
     date_now now < day \<and> day \<le> date_now now + 7 \<and>
     n = length (filter (\<lambda>c. in_scope d user deckId c \<and> date_of (due_date c) = day) (cards d)) \<and>
     0 < n"
proof -
  define P where "P = (\<lambda>c. in_scope d user deckId c \<and>
                     date_of (due_date c) > date_now now \<and>
                     date_of (due_date c) \<le> date_now now + 7)"
  define rows where "rows = filter P (cards d)"
  have up: "upcoming d user deckId now =
      map (\<lambda>day. (day, length (filter (\<lambda>c. date_of (due_date c) = day) rows)))
        (sort (remdups (map (\<lambda>c. date_of (due_date c)) rows)))"
    by (simp add: upcoming_def rows_def P_def)
  have mem: "(day, n) \<in> set (upcoming d user deckId now) \<longleftrightarrow>
      (\<exists>c\<in>set rows. date_of (due_date c) = day) \<and>
      n = length (filter (\<lambda>c. date_of (due_date c) = day) rows)"
    unfolding up by auto
  have cnt: "length (filter (\<lambda>c. date_of (due_date c) = day) rows) =
      length (filter (\<lambda>c. in_scope d user deckId c \<and> date_of (due_date c) = day) (cards d))"
    if "date_now now < day" "day \<le> date_now now + 7"
    unfolding rows_def filter_filter
    by (rule arg_cong [where f = length], rule filter_cong) (use that in \<open>auto simp: P_def\<close>)
  have ex: "(\<exists>c\<in>set rows. date_of (due_date c) = day) \<longleftrightarrow>
      date_now now < day \<and> day \<le> date_now now + 7 \<and>
      (\<exists>c\<in>set (cards d). in_scope d user deckId c \<and> date_of (due_date c) = day)"
    by (auto simp: rows_def P_def)
  show ?thesis
  proof (cases "date_now now < day \<and> day \<le> date_now now + 7")
    case True
    then have "(\<exists>c\<in>set rows. date_of (due_date c) = day) \<longleftrightarrow>
        0 < length (filter (\<lambda>c. in_scope d user deckId c \<and> date_of (due_date c) = day)
              (cards d))"
      unfolding ex length_filter_pos_iff by simp
    with cnt True show ?thesis
      unfolding mem by auto
  next
    case False
    then show ?thesis
      unfolding mem ex by auto
  qed
qed

lemma upcoming_sorted_distinct:
  "sorted (map fst (upcoming d user deckId now)) \<and> distinct (map fst (upcoming d user deckId now))"
  by (simp add: upcoming_def Let_def comp_def)

text \<open>
  Claim C8. Over the cards of the owner (of one deck when a deck filter is given) the
  statistics are: the number of cards; the number of cards whose due date is today's date
  or earlier; the number of new cards, those with zero repetitions, due or not; the number
  of review cards, those with more than zero repetitions that are due; and a histogram
  with one entry per calendar date strictly after today and at most seven days ahead on
  which at least one card is due, giving the number of cards due on that date, in
  ascending order of the dates.
\<close>

theorem review_stats_counts:
  "total_cards (review_stats d user deckId now) =
     length (filter (in_scope d user deckId) (cards d)) \<and>
   due_now (review_stats d user deckId now) =
     length (filter (\<lambda>c. in_scope d user deckId c \<and> date_of (due_date c) \<le> date_now now)
       (cards d)) \<and>
   new_cards (review_stats d user deckId now) =
     length (filter (\<lambda>c. in_scope d user deckId c \<and> repetitions c = 0) (cards d)) \<and>
   review_cards (review_stats d user deckId now) =
     length (filter (\<lambda>c. in_scope d user deckId c \<and> repetitions c > 0 \<and>
       date_of (due_date c) \<le> date_now now) (cards d)) \<and>
   ((day, n) \<in> set (upcoming d user deckId now) \<longleftrightarrow>
      date_now now < day \<and> day \<le> date_now now + 7 \<and>
      n = length (filter (\<lambda>c. in_scope d user deckId c \<and> date_of (due_date c) = day)
            (cards d)) \<and>
      0 < n) \<and>
   sorted (map fst (upcoming d user deckId now)) \<and>
   distinct (map fst (upcoming d user deckId now))"
proof -
  have conj_filter: "filter Q (filter (in_scope d user deckId) (cards d)) =
      filter (\<lambda>c. in_scope d user deckId c \<and> Q c) (cards d)" for Q
    by (simp add: conj_commute)
  have "total_cards (review_stats d user deckId now) =
      length (filter (in_scope d user deckId) (cards d))"
    by (simp add: review_stats_def)
  moreover have "due_now (review_stats d user deckId now) =
      length (filter (\<lambda>c. in_scope d user deckId c \<and> date_of (due_date c) \<le> date_now now)
        (cards d))"
    by (simp add: review_stats_def conj_filter is_due_def)
  moreover have "new_cards (review_stats d user deckId now) =
      length (filter (\<lambda>c. in_scope d user deckId c \<and> repetitions c = 0) (cards d))"
    by (simp add: review_stats_def conj_filter)
  moreover have "review_cards (review_stats d user deckId now) =
      length (filter (\<lambda>c. in_scope d user deckId c \<and> repetitions c > 0 \<and>
        date_of (due_date c) \<le> date_now now) (cards d))"
    by (simp add: review_stats_def conj_filter is_due_def)
  ultimately show ?thesis
    using upcoming_entry [of day n d user deckId now]
      upcoming_sorted_distinct [of d user deckId now]
    by blast
qed

theorem review_stats_counts_witness:
  "review_stats stats_db 1 None 1793662200000 =
     \<lparr>total_cards = 5, due_now = 2, new_cards = 2, review_cards = 1\<rparr> \<and>
   upcoming stats_db 1 None 1793662200000 = [(20760, 1), (20766, 1)] \<and>
   (20766, 1) \<in> set (upcoming stats_db 1 None 1793662200000) \<and>
   length (filter (\<lambda>c. in_scope stats_db 1 None c \<and> date_of (due_date c) = 20766)
     (cards stats_db)) = 1"
proof -
  have u: "upcoming stats_db 1 None 1793662200000 = [(20760, 1), (20766, 1)]"
    by (simp add: upcoming_def stats_db_def stats_card_def in_scope_def date_now_def)
  have s: "review_stats stats_db 1 None 1793662200000 =
     \<lparr>total_cards = 5, due_now = 2, new_cards = 2, review_cards = 1\<rparr>"
    by (simp add: review_stats_def stats_db_def stats_card_def in_scope_def is_due_def
        date_now_def)
  show ?thesis
    using u s review_stats_counts [of stats_db 1 None 1793662200000 20766 1] by simp
qed


section \<open>Properties of the submit route\<close>

lemma submit_requires_numbers:
  "(\<forall>x. cardId \<noteq> JNumber x) \<or> (\<forall>x. quality \<noteq> JNumber x) \<Longrightarrow>
   submit tza d user now cardId quality = (Error 400 ''cardId and quality are required'', d)"
  by (cases cardId; cases quality) (auto simp: submit_def)

lemma submit_accepted:
  assumes "0 \<le> q" "q \<le> 5" "get_card d user cid = Some row"
    and "setDate_toISOString tza now (interval (advance q (sm2.truncate row))) = Some due"
  shows "cards (snd (submit tza d user now (JNumber cid) (JNumber q))) =
       update_card cid (advance q (sm2.truncate row)) due (cards d)"
    and "review_history (snd (submit tza d user now (JNumber cid) (JNumber q))) =
       review_history d @
         [\<lparr>rh_card_id = card_id row, rh_quality = q,
           rh_ease_factor = easeFactor (advance q (sm2.truncate row)),
           rh_interval = interval (advance q (sm2.truncate row))\<rparr>]"
    and "decks (snd (submit tza d user now (JNumber cid) (JNumber q))) = decks d"
    and "accepted (fst (submit tza d user now (JNumber cid) (JNumber q)))"
  using assms by (simp_all add: submit_def Let_def advance_def sm2.truncate_def)

lemma submit_range_error:
  assumes "0 \<le> q" "q \<le> 5" "get_card d user cid = Some row"
    and "setDate_toISOString tza now (interval (advance q (sm2.truncate row))) = None"
  shows "submit tza d user now (JNumber cid) (JNumber q) = (Thrown ''RangeError'', d)"
  using assms by (simp add: submit_def Let_def advance_def sm2.truncate_def)

lemma submit_not_found:
  assumes "0 \<le> q" "q \<le> 5" "get_card d user cid = None"
  shows "submit tza d user now (JNumber cid) (JNumber q) = (Error 404 ''Card not found'', d)"
  using assms by (simp add: submit_def)

text \<open>
  On a server whose offset from UTC is constant the due date is the instant of the review
  plus the new interval in days of 86400000 milliseconds.
\<close>

lemma setDate_constant_offset:
  "setDate_toISOString (\<lambda>t isUTC. c) now ivl =
     (if \<bar>now + ivl * 86400000\<bar> \<le> 8640000000000000
      then Some (IsoString (now + ivl * 86400000)) else None)"
  by (simp add: setDate_toISOString_def)

lemma get_card_id:
  "get_card d user cid = Some row \<Longrightarrow> row \<in> set (cards d) \<and> of_int (card_id row) = cid"
  by (auto simp: get_card_def find_Some_iff)

lemma update_card_hit:
  assumes "c \<in> set (update_card cid r due rows)" "of_int (card_id c) = cid"
  shows "due_date c = due \<and> sm2.truncate c = r"
proof -
  from assms(1) obtain x where x: "x \<in> set rows"
    and c: "c = (if of_int (card_id x) = cid
             then x\<lparr>easeFactor := easeFactor r, interval := interval r,
                    repetitions := repetitions r, due_date := due\<rparr>
             else x)"
    unfolding update_card_def by (auto simp only: set_map image_iff)
  show ?thesis
  proof (cases "of_int (card_id x) = cid")
    case True
    with c have "c = x\<lparr>easeFactor := easeFactor r, interval := interval r,
                    repetitions := repetitions r, due_date := due\<rparr>"
      by simp
    then show ?thesis
      by (simp add: sm2.truncate_def)
  next
    case False
    with c have "c = x" by simp
    with False assms(2) show ?thesis by simp
  qed
qed

lemma accepted_quality_not_clamped:
  assumes "0 \<le> q" "q \<le> 5"
  shows "clamp_quality q = Math_round q"
proof -
  have "Math_round 0 \<le> Math_round q" "Math_round q \<le> Math_round 5"
    using assms by (simp_all add: Math_round_mono)
  then have "0 \<le> Math_round q" "Math_round q \<le> 5"
    by (simp_all add: Math_round_def)
  then show ?thesis
    by (simp add: clamp_quality_def)
qed

text \<open>
  Claim C5. After an accepted review the history should hold the rounded and clamped
  quality. The review of the card of \<open>one_card_db\<close> with the quality 2.5 is accepted and
  scheduled as a quality of 3 (a success: the card gets one repetition), but the record
  appended to the history holds 2.5.
\<close>

theorem submit_records_unrounded_quality:
  "accepted (fst (submit utc_zone one_card_db 1 1793494800000 (JNumber 1) (JNumber 2.5))) \<and>
   map rh_quality
     (review_history
        (snd (submit utc_zone one_card_db 1 1793494800000 (JNumber 1) (JNumber 2.5))))
     = [2.5] \<and>
   real_of_int (clamp_quality 2.5) = 3 \<and>
   map repetitions
     (cards (snd (submit utc_zone one_card_db 1 1793494800000 (JNumber 1) (JNumber 2.5))))
     = [1] \<and>
   map due_date
     (cards (snd (submit utc_zone one_card_db 1 1793494800000 (JNumber 1) (JNumber 2.5))))
     = [IsoString (1793494800000 + 1 * 86400000)]"
proof -
  have c: "clamp_quality (5 / 2) = 3"
    by (simp add: clamp_quality_def Math_round_def)
  have i: "interval (calculateSM2 (5 / 2) (5 / 2) 0 0) = 1"
    "repetitions (calculateSM2 (5 / 2) (5 / 2) 0 0) = 1"
    by (simp_all add: sm2_interval_eq sm2_repetitions_eq c)
  show ?thesis
    by (simp add: submit_def get_card_def one_card_db_def new_card_def i c
        setDate_toISOString_def utc_zone_def update_card_def Let_def)
qed

text \<open>
  Claim C9, as stated, fails twice. A review submitted without a card id and with the
  quality 7 is answered with the error \<open>cardId and quality are required\<close>, the type check
  coming before the range check. And a review with the fractional quality 2.5 for a card
  that does not exist is not accepted: the answer is \<open>Card not found\<close>.
\<close>

theorem submit_quality_error_counterexample:
  "submit utc_zone one_card_db 1 1793494800000 JUndefined (JNumber 7) =
     (Error 400 ''cardId and quality are required'', one_card_db) \<and>
   ''cardId and quality are required'' \<noteq> ''Quality must be between 0 and 5'' \<and>
   submit utc_zone one_card_db 1 1793494800000 (JNumber 999) (JNumber 2.5) =
     (Error 404 ''Card not found'', one_card_db) \<and>
   \<not> accepted (Error 404 ''Card not found'')"
  by (simp add: submit_def get_card_def one_card_db_def new_card_def)

text \<open>
  Claim C9, amended. A review whose card id and quality are both numbers and whose quality
  is below 0 or above 5 is answered with the error \<open>Quality must be between 0 and 5\<close> and
  the database (memory states, due dates, review history) is left as it was. So the
  scheduler is only reached with a quality from 0 to 5, where clamping changes nothing
  after rounding. A fractional quality from 0 to 5 is never answered with that error: when
  the card exists for the user and the new due date is a valid date, the review is accepted
  and the card receives the scheduler's result, which is the result at the rounded
  quality; when the card does not exist the answer is \<open>Card not found\<close>, and when the new
  due date is not a valid date the request fails with a \<open>RangeError\<close>, the database being
  left as it was in both cases.
\<close>

theorem submit_quality_range:
  "(q < 0 \<or> 5 < q \<longrightarrow>
      submit tza d user now (JNumber cid) (JNumber q) =
        (Error 400 ''Quality must be between 0 and 5'', d)) \<and>
   (0 \<le> q \<and> q \<le> 5 \<longrightarrow>
      clamp_quality q = Math_round q \<and>
      fst (submit tza d user now (JNumber cid) (JNumber q)) \<noteq>
        Error 400 ''Quality must be between 0 and 5'' \<and>
      (get_card d user cid = None \<longrightarrow>
         submit tza d user now (JNumber cid) (JNumber q) = (Error 404 ''Card not found'', d)) \<and>
      (get_card d user cid = Some row \<and>
       setDate_toISOString tza now (interval (advance q (sm2.truncate row))) = None \<longrightarrow>
         submit tza d user now (JNumber cid) (JNumber q) = (Thrown ''RangeError'', d)) \<and>
      (get_card d user cid = Some row \<and>
       setDate_toISOString tza now (interval (advance q (sm2.truncate row))) = Some due \<longrightarrow>
         accepted (fst (submit tza d user now (JNumber cid) (JNumber q))) \<and>
         (\<forall>c\<in>set (cards (snd (submit tza d user now (JNumber cid) (JNumber q)))).
            of_int (card_id c) = cid \<longrightarrow>
              sm2.truncate c = advance q (sm2.truncate row) \<and>
              sm2.truncate c = advance (of_int (Math_round q)) (sm2.truncate row) \<and>
              due_date c = due)))"
proof -
  let ?s = "submit tza d user now (JNumber cid) (JNumber q)"
  have rej: "?s = (Error 400 ''Quality must be between 0 and 5'', d)" if "q < 0 \<or> 5 < q"
    using that by (auto simp: submit_def)
  have rnd: "advance q s = advance (of_int (Math_round q)) s" for s
    unfolding advance_def
    by (rule calculateSM2_cong_quality) (simp add: clamp_quality_def Math_round_of_int)
  have acc: "accepted (fst ?s) \<and>
         (\<forall>c\<in>set (cards (snd ?s)). of_int (card_id c) = cid \<longrightarrow>
              sm2.truncate c = advance q (sm2.truncate row) \<and>
              sm2.truncate c = advance (of_int (Math_round q)) (sm2.truncate row) \<and>
              due_date c = due)"
    if r: "0 \<le> q" "q \<le> 5" and row: "get_card d user cid = Some row"
      and due: "setDate_toISOString tza now (interval (advance q (sm2.truncate row))) = Some due"
  proof -
    have "sm2.truncate c = advance q (sm2.truncate row) \<and> due_date c = due"
      if "c \<in> set (cards (snd ?s))" "of_int (card_id c) = cid" for c
      using update_card_hit [OF that(1) [unfolded submit_accepted(1) [OF r row due]] that(2)]
      by simp
    then show ?thesis
      using submit_accepted(4) [OF r row due] rnd [of "sm2.truncate row"] by simp
  qed
  have ne: "fst ?s \<noteq> Error 400 ''Quality must be between 0 and 5''" if r: "0 \<le> q" "q \<le> 5"
  proof (cases "get_card d user cid")
    case None
    then show ?thesis
      using submit_not_found [OF r None, of tza now] by simp
  next
    case (Some row')
    show ?thesis
    proof (cases "setDate_toISOString tza now (interval (advance q (sm2.truncate row')))")
      case None
      then show ?thesis
        using submit_range_error [OF r Some None] by simp
    next
      case (Some due')
      then show ?thesis
        using submit_accepted(4) [OF r \<open>get_card d user cid = Some row'\<close> Some]
        by (cases "fst ?s") simp_all
    qed
  qed
  show ?thesis
    using rej ne acc accepted_quality_not_clamped [of q]
      submit_not_found [of q d user cid tza now]
      submit_range_error [of q d user cid row tza now]
    by blast
qed

theorem submit_quality_range_witness:
  "((- 1::real) < 0 \<or> (5::real) < - 1) \<and>
   submit utc_zone one_card_db 1 1793494800000 (JNumber 1) (JNumber (- 1)) =
     (Error 400 ''Quality must be between 0 and 5'', one_card_db) \<and>
   ((6::real) < 0 \<or> (5::real) < 6) \<and>
   submit utc_zone one_card_db 1 1793494800000 (JNumber 1) (JNumber 6) =
     (Error 400 ''Quality must be between 0 and 5'', one_card_db) \<and>
   (0::real) \<le> 2.5 \<and> (2.5::real) \<le> 5 \<and> clamp_quality 2.5 = Math_round 2.5 \<and>
   Math_round 2.5 = 3 \<and>
   get_card one_card_db 1 1 = Some new_card \<and>
   setDate_toISOString utc_zone 1793494800000
     (interval (advance 2.5 (sm2.truncate new_card))) = Some (IsoString 1793581200000) \<and>
   accepted (fst (submit utc_zone one_card_db 1 1793494800000 (JNumber 1) (JNumber 2.5))) \<and>
   map sm2.truncate
     (cards (snd (submit utc_zone one_card_db 1 1793494800000 (JNumber 1) (JNumber 2.5)))) =
     [advance 3 (sm2.truncate new_card)] \<and>
   (0::real) \<le> 4.5 \<and> (4.5::real) \<le> 5 \<and>
   get_card ripe_db 1 1 = Some ripe_card \<and>
   interval (advance 4.5 (sm2.truncate ripe_card)) = 120864680 \<and>
   setDate_toISOString utc_zone 1793498400000
     (interval (advance 4.5 (sm2.truncate ripe_card))) = None \<and>
   submit utc_zone ripe_db 1 1793498400000 (JNumber 1) (JNumber 4.5) =
     (Thrown ''RangeError'', ripe_db)"
proof -
  have g: "get_card one_card_db 1 1 = Some new_card"
    by (simp add: get_card_def one_card_db_def new_card_def)
  have m: "Math_round 2.5 = 3"
    by (simp add: Math_round_def)
  have r: "(0::real) \<le> 2.5" "(2.5::real) \<le> 5"
    by simp_all
  have lo: "(- 1::real) < 0 \<or> (5::real) < - 1" and hi: "(6::real) < 0 \<or> (5::real) < 6"
    by simp_all
  have c: "clamp_quality (5 / 2) = 3" "clamp_quality (9 / 2) = 5"
    by (simp_all add: clamp_quality_def Math_round_def)
  have i: "interval (advance 2.5 (sm2.truncate new_card)) = 1"
    by (simp add: advance_def sm2.truncate_def new_card_def sm2_interval_eq c)
  have s: "setDate_toISOString utc_zone 1793494800000
     (interval (advance 2.5 (sm2.truncate new_card))) = Some (IsoString 1793581200000)"
    unfolding i by (simp add: setDate_toISOString_def utc_zone_def)
  let ?d = "snd (submit utc_zone one_card_db 1 1793494800000 (JNumber 1) (JNumber 2.5))"
  note t = submit_quality_range [of "2.5" utc_zone one_card_db 1 1793494800000 1 new_card
      "IsoString 1793581200000"]
  from t r g s have acc: "clamp_quality 2.5 = Math_round 2.5"
    "accepted (fst (submit utc_zone one_card_db 1 1793494800000 (JNumber 1) (JNumber 2.5)))"
    by blast+
  from t r g s have all: "\<forall>c\<in>set (cards ?d). real_of_int (card_id c) = 1 \<longrightarrow>
      sm2.truncate c = advance (of_int (Math_round 2.5)) (sm2.truncate new_card)"
    by blast
  have cs: "map card_id (cards ?d) = [1]" "length (cards ?d) = 1"
    unfolding submit_accepted(1) [OF r g s]
    by (simp_all add: update_card_def one_card_db_def new_card_def)
  then obtain x where x: "cards ?d = [x]"
    by (cases "cards ?d") simp_all
  with cs have "card_id x = 1" by simp
  moreover have "Math_round (5 / 2) = 3"
    by (simp add: Math_round_def)
  ultimately have "sm2.truncate x = advance 3 (sm2.truncate new_card)"
    using all x by simp
  with x have st: "map sm2.truncate (cards ?d) = [advance 3 (sm2.truncate new_card)]"
    by simp
  from lo submit_quality_range [of "- 1" utc_zone one_card_db 1 1793494800000 1]
  have e1: "submit utc_zone one_card_db 1 1793494800000 (JNumber 1) (JNumber (- 1)) =
     (Error 400 ''Quality must be between 0 and 5'', one_card_db)"
    by blast
  from hi submit_quality_range [of 6 utc_zone one_card_db 1 1793494800000 1]
  have e2: "submit utc_zone one_card_db 1 1793494800000 (JNumber 1) (JNumber 6) =
     (Error 400 ''Quality must be between 0 and 5'', one_card_db)"
    by blast
  have r2: "(0::real) \<le> 4.5" "(4.5::real) \<le> 5"
    by simp_all
  have g2: "get_card ripe_db 1 1 = Some ripe_card"
    by (simp add: get_card_def ripe_db_def ripe_card_def)
  have i2: "interval (advance 4.5 (sm2.truncate ripe_card)) = 120864680"
    by (simp add: advance_def sm2.truncate_def ripe_card_def sm2_interval_eq c
        Math_round_def num_mul_def double_eval)
  have s2: "setDate_toISOString utc_zone 1793498400000
     (interval (advance 4.5 (sm2.truncate ripe_card))) = None"
    unfolding i2 by (simp add: setDate_toISOString_def utc_zone_def)
  from r2 g2 s2
    submit_quality_range [of "4.5" utc_zone ripe_db 1 1793498400000 1 ripe_card]
  have e3: "submit utc_zone ripe_db 1 1793498400000 (JNumber 1) (JNumber 4.5) =
     (Thrown ''RangeError'', ripe_db)"
    by blast
  from lo hi e1 e2 r acc m g s st r2 g2 i2 s2 e3 show ?thesis
    by blast
qed

text \<open>
  The memory state \<open>ripe_state\<close> is the one the scheduler reaches from a new card by fifteen
  reviews with quality 5.
\<close>

lemma ripe_state_reached:
  "advance_all \<lparr>easeFactor = 2.5, interval = 0, repetitions = 0\<rparr>
     [5, 5, 5, 5, 5, 5, 5, 5, 5, 5, 5, 5, 5, 5, 5] = ripe_state"
proof -
  have c: "clamp_quality 5 = 5"
    by (simp add: clamp_quality_def Math_round_def)
  show ?thesis
    by (simp add: advance_def calculateSM2_eval c ef_delta_values lit_values num_add_def
        num_mul_def Math_round_def ripe_state_def double_eval)
qed

end
